theory Spec2Isabelle
  imports Main "HOL-Library.AList"
begin

unbundle bit_operations_syntax

section \<open>Data model of the serial transport (connection.go)\<close>

text \<open>
  Go's \<open>int\<close> is modelled as \<open>int\<close>: the only arithmetic of the transport is the
  command counter, kept below 10000, and bit operations on masks, none of which can
  overflow 64 bits. Bytes are \<open>char\<close> (8 bits) and Go strings are byte lists.
  A \<open>time.Time\<close> is an \<open>int\<close> of nanoseconds, a \<open>time.Duration\<close> likewise.

  A buffered channel \<open>chan string\<close> of capacity 1 is an address into the store
  \<open>chans\<close>: \<open>None\<close> is the empty buffer, \<open>Some v\<close> the full one.
\<close>

type_synonym chan = nat

text \<open>\<open>type MouseButton int\<close>, with the constants 0 to 4.\<close>

type_synonym MouseButton = int

record PendingCommand =
  CommandID :: int
  Command :: string
  ResultCh :: chan
  Timestamp :: int

text \<open>
  The sentinel errors of errors.go and \<open>MakcuError{Base, Message}\<close>. \<open>IOError\<close>
  is an error value handed back by the serial library (not a \<open>MakcuError\<close>).
\<close>

datatype sentinel = ErrConnection | ErrCommand | ErrTimeout | ErrResponse

datatype error = MakcuError (Base: sentinel) (Message: string) | IOError string

definition NewConnectionError :: "string \<Rightarrow> error" where
  "NewConnectionError msg = MakcuError ErrConnection msg"

definition NewCommandError :: "string \<Rightarrow> error" where
  "NewCommandError msg = MakcuError ErrCommand msg"

definition NewTimeoutError :: "string \<Rightarrow> error" where
  "NewTimeoutError msg = MakcuError ErrTimeout msg"

definition NewResponseError :: "string \<Rightarrow> error" where
  "NewResponseError msg = MakcuError ErrResponse msg"

text \<open>\<open>errors.Is(err, target)\<close> on these values: the wrapped sentinel is compared.\<close>

fun errors_Is :: "error \<Rightarrow> sentinel \<Rightarrow> bool" where
  "errors_Is (MakcuError b m) t = (b = t)"
| "errors_Is (IOError m) t = False"

text \<open>
  \<open>SerialTransport\<close>. The map \<open>pendingCommands\<close> is an association list with one
  pair per key; the order of the list is the order in which a \<open>range\<close> loop visits the
  entries, which Go leaves unspecified, so every statement below holds for every order.
  \<open>serialPort\<close> is \<open>None\<close> for \<open>nil\<close> and otherwise names the opened port.
  \<open>buttonCallback\<close> records whether a callback is registered.

  The last five fields are the environment the methods act on: the channel store and
  its allocator, the payloads of the \<open>Write\<close> calls made on the serial port, the ports
  passed to \<open>serial.Open\<close>, and the invocations of the button callback.
\<close>

record SerialTransport =
  Port :: string
  fallbackPort :: string
  sendInit :: bool
  autoReconnect :: bool
  overridePort :: bool
  isConnected :: bool
  reconnectAttempts :: int
  serialPort :: "string option"
  currentBaud :: int
  commandCounter :: int
  pendingCommands :: "(int \<times> PendingCommand) list"
  buttonCallback :: bool
  lastButtonMask :: int
  buttonStates :: int
  chans :: "chan \<Rightarrow> string option"
  nextChan :: chan
  portWrites :: "string list"
  portOpens :: "string list"
  callbackLog :: "(MouseButton \<times> bool) list"

definition DefaultTimeout :: int where
  "DefaultTimeout = 100 * 1000000"

definition maxReconnectAttempts :: int where
  "maxReconnectAttempts = 3"

definition second :: int where
  "second = 1000000000"

definition buttonNames :: "string list" where
  "buttonNames = [''left'', ''right'', ''middle'', ''mouse4'', ''mouse5'']"

definition buttonEnumMap :: "MouseButton list" where
  "buttonEnumMap = [0, 1, 2, 3, 4]"

definition NewSerialTransport :: "string \<Rightarrow> bool \<Rightarrow> bool \<Rightarrow> bool \<Rightarrow> SerialTransport" where
  "NewSerialTransport fallback sendInit' autoReconnect' overridePort' =
     \<lparr> Port = [], fallbackPort = fallback, sendInit = sendInit',
       autoReconnect = autoReconnect', overridePort = overridePort',
       isConnected = False, reconnectAttempts = 0, serialPort = None,
       currentBaud = 0, commandCounter = 0, pendingCommands = [],
       buttonCallback = False, lastButtonMask = 0, buttonStates = 0,
       chans = (\<lambda>c. None), nextChan = 0, portWrites = [], portOpens = [],
       callbackLog = [] \<rparr>"

section \<open>Button telegrams\<close>

text \<open>The body of the loop \<open>for bit := 0; bit < 8; bit++\<close> of \<open>handleButtonData\<close>.\<close>

definition handleBit :: "int \<Rightarrow> int \<Rightarrow> nat \<Rightarrow> SerialTransport \<Rightarrow> SerialTransport" where
  "handleBit byteVal changedBits b s =
     (if changedBits AND push_bit b 1 \<noteq> 0 then
        let isPressed = (byteVal AND push_bit b 1 \<noteq> 0);
            s1 = (if isPressed
                  then s\<lparr>buttonStates := buttonStates s OR push_bit b 1\<rparr>
                  else s\<lparr>buttonStates := buttonStates s AND NOT (push_bit b 1)\<rparr>)
        in if buttonCallback s1 \<and> b < length buttonEnumMap
           then s1\<lparr>callbackLog := callbackLog s1 @ [(buttonEnumMap ! b, isPressed)]\<rparr>
           else s1
      else s)"

definition handleButtonData :: "int \<Rightarrow> SerialTransport \<Rightarrow> SerialTransport" where
  "handleButtonData byteVal s =
     (if byteVal = lastButtonMask s then s
      else let changedBits = byteVal XOR lastButtonMask s;
               s' = fold (handleBit byteVal changedBits) [0..<8] s
           in s'\<lparr>lastButtonMask := byteVal\<rparr>)"

text \<open>
  \<open>GetButtonStates\<close> returns a map from the five button names to booleans, here the
  list of pairs in the order of \<open>buttonNames\<close>; \<open>GetButtonMask\<close> returns the raw mask.
\<close>

definition GetButtonStates :: "SerialTransport \<Rightarrow> (string \<times> bool) list" where
  "GetButtonStates s =
     map (\<lambda>i. (buttonNames ! i, buttonStates s AND push_bit i 1 \<noteq> 0)) [0..<length buttonNames]"

definition GetButtonMask :: "SerialTransport \<Rightarrow> int" where
  "GetButtonMask s = lastButtonMask s"

section \<open>Command correlation\<close>

text \<open>Go's \<open>%\<close> truncates towards zero.\<close>

definition go_rem :: "int \<Rightarrow> int \<Rightarrow> int" where
  "go_rem a b = sgn a * (\<bar>a\<bar> mod \<bar>b\<bar>)"

definition generateCommandID :: "SerialTransport \<Rightarrow> int \<times> SerialTransport" where
  "generateCommandID s =
     (let c = go_rem (commandCounter s + 1) 10000 in (c, s\<lparr>commandCounter := c\<rparr>))"

text \<open>The verb \<open>%d\<close> of \<open>fmt.Sprintf\<close>: the decimal digits, with a minus sign if negative.\<close>

fun digits :: "nat \<Rightarrow> string" where
  "digits n = (if n < 10 then [char_of (48 + n)]
               else digits (n div 10) @ [char_of (48 + n mod 10)])"

definition Sprintf_d :: "int \<Rightarrow> string" where
  "Sprintf_d i = (if i < 0 then CHR ''-'' # digits (nat (- i)) else digits (nat i))"

definition CR :: char where "CR = CHR 0x0D"

definition LF :: char where "LF = CHR 0x0A"

text \<open>\<open>s.serialPort.Write(payload)\<close>: the call is recorded; its result is an input.\<close>

definition port_Write :: "string \<Rightarrow> SerialTransport \<Rightarrow> SerialTransport" where
  "port_Write payload s = s\<lparr>portWrites := portWrites s @ [payload]\<rparr>"

text \<open>
  \<open>strings.Index(s, substr)\<close>: the index of the first occurrence of \<open>substr\<close> in \<open>s\<close>,
  or -1. The first argument counts the bytes already passed.
\<close>

fun strings_Index_from :: "nat \<Rightarrow> string \<Rightarrow> string \<Rightarrow> int" where
  "strings_Index_from i [] sub = (if sub = [] then int i else - 1)"
| "strings_Index_from i (c # cs) sub =
     (if take (length sub) (c # cs) = sub then int i else strings_Index_from (Suc i) cs sub)"

definition strings_Index :: "string \<Rightarrow> string \<Rightarrow> int" where
  "strings_Index s sub = strings_Index_from 0 s sub"

text \<open>
  \<open>SendCommand\<close> runs in two parts. \<open>SendCommand_begin\<close> is the code up to the
  \<open>select\<close>: it either returns (\<open>Returned\<close>) or reaches the \<open>select\<close> and blocks there
  (\<open>Blocked\<close>, with the command id, the result channel and the effective timeout).
  Its inputs besides the Go arguments are the current time and the error, if any, that
  \<open>Write\<close> returns.
\<close>

datatype send_progress = Returned "error + string" | Blocked int chan int

definition SendCommand_begin ::
  "string \<Rightarrow> bool \<Rightarrow> int \<Rightarrow> int \<Rightarrow> error option \<Rightarrow> SerialTransport
     \<Rightarrow> send_progress \<times> SerialTransport" where
  "SendCommand_begin command expectResponse timeout now werr s =
     (if \<not> isConnected s \<or> serialPort s = None
      then (Returned (Inl (NewConnectionError ''not connected'')), s)
      else
        let timeout' = (if timeout = 0 then DefaultTimeout else timeout) in
        if \<not> expectResponse then
          let s1 = port_Write (command @ [CR, LF]) s in
          (case werr of
             Some err \<Rightarrow> (Returned (Inl err), s1)
           | None \<Rightarrow> (Returned (Inr command), s1))
        else
          let (cmdID, s1) = generateCommandID s;
              resultCh = nextChan s1;
              s2 = s1\<lparr>chans := (chans s1)(resultCh := None), nextChan := Suc resultCh\<rparr>;
              s3 = s2\<lparr>pendingCommands :=
                      AList.update cmdID
                        \<lparr>CommandID = cmdID, Command = command, ResultCh = resultCh,
                         Timestamp = now\<rparr>
                        (pendingCommands s2)\<rparr>;
              taggedCmd = command @ ''#'' @ Sprintf_d cmdID @ [CR, LF];
              s4 = port_Write taggedCmd s3
          in (case werr of
                Some err \<Rightarrow>
                  (Returned (Inl err),
                   s4\<lparr>pendingCommands := AList.delete cmdID (pendingCommands s4)\<rparr>)
              | None \<Rightarrow> (Blocked cmdID resultCh timeout', s4)))"

text \<open>
  The \<open>select\<close> of \<open>SendCommand\<close>. Its three cases are ready when the result channel
  holds a value, when the stop channel is closed and when the timer has fired; the
  function lists the outcome of every ready case (Go picks any of them), and the empty
  list means that the caller stays blocked. Receiving empties the channel.
\<close>

definition strip_result :: "string \<Rightarrow> string" where
  "strip_result result =
     (let idx = strings_Index result ''#'' in
      if idx \<ge> 0 then take (nat idx) result else result)"

definition SendCommand_select ::
  "int \<Rightarrow> chan \<Rightarrow> string \<Rightarrow> bool \<Rightarrow> bool \<Rightarrow> SerialTransport
     \<Rightarrow> ((error + string) \<times> SerialTransport) list" where
  "SendCommand_select cmdID resultCh command stopClosed timerFired s =
     (case chans s resultCh of
        None \<Rightarrow> []
      | Some result \<Rightarrow>
          [(Inr (strip_result result), s\<lparr>chans := (chans s)(resultCh := None)\<rparr>)])
     @ (if stopClosed
        then [(Inl (NewConnectionError ''disconnected while waiting for response''),
               s\<lparr>pendingCommands := AList.delete cmdID (pendingCommands s)\<rparr>)]
        else [])
     @ (if timerFired
        then [(Inl (NewTimeoutError (''command timed out: '' @ command)),
               s\<lparr>pendingCommands := AList.delete cmdID (pendingCommands s)\<rparr>)]
        else [])"

text \<open>
  \<open>processPendingCommands\<close>. The loop over the keys starts from the sentinel -1.
  \<open>None\<close> is the nil-pointer panic of \<open>pending.Command\<close> when the looked-up entry is
  missing; \<open>processPendingCommands_total\<close> below shows that it never happens.
  The non-blocking send \<open>select { case ch <- v: default: }\<close> is \<open>chan_try_send\<close>.
\<close>

definition oldest_step :: "int \<Rightarrow> int \<Rightarrow> int" where
  "oldest_step id' oldestID = (if oldestID = - 1 \<or> id' < oldestID then id' else oldestID)"

definition find_oldest :: "(int \<times> PendingCommand) list \<Rightarrow> int" where
  "find_oldest tbl = fold oldest_step (map fst tbl) (- 1)"

definition chan_try_send :: "chan \<Rightarrow> string \<Rightarrow> (chan \<Rightarrow> string option) \<Rightarrow> (chan \<Rightarrow> string option)" where
  "chan_try_send ch v st = (case st ch of None \<Rightarrow> st(ch := Some v) | Some w \<Rightarrow> st)"

definition processPendingCommands :: "string \<Rightarrow> SerialTransport \<Rightarrow> SerialTransport option" where
  "processPendingCommands content s =
     (if content = [] then Some s
      else if length (pendingCommands s) = 0 then Some s
      else
        let oldestID = find_oldest (pendingCommands s) in
        case map_of (pendingCommands s) oldestID of
          None \<Rightarrow> None
        | Some pending \<Rightarrow>
            if content = Command pending then Some s
            else Some (s\<lparr>chans := chan_try_send (ResultCh pending) content (chans s),
                         pendingCommands := AList.delete oldestID (pendingCommands s)\<rparr>))"

text \<open>
  \<open>cleanupTimedOutCommands\<close>, with \<open>time.Now()\<close> as an input. The loop visits every
  entry of the table as it was on entry (an entry only ever deletes itself), and
  \<open>now.Sub(t) > time.Second\<close> is the comparison of the difference, which the
  saturation of \<open>Sub\<close> does not change.
\<close>

definition cleanup_step :: "int \<Rightarrow> int \<times> PendingCommand \<Rightarrow> (int \<times> PendingCommand) list
     \<Rightarrow> (int \<times> PendingCommand) list" where
  "cleanup_step now e tbl =
     (if now - Timestamp (snd e) > second then AList.delete (fst e) tbl else tbl)"

definition cleanupTimedOutCommands :: "int \<Rightarrow> SerialTransport \<Rightarrow> SerialTransport" where
  "cleanupTimedOutCommands now s =
     s\<lparr>pendingCommands := fold (cleanup_step now) (pendingCommands s) (pendingCommands s)\<rparr>"

section \<open>The read loop: splitting the byte stream\<close>

text \<open>
  \<open>strings.TrimSpace\<close> removes the leading and the trailing white space "as defined by
  Unicode": the six ASCII characters and, in UTF-8, the code points U+0085, U+00A0,
  U+1680, U+2000 to U+200A, U+2028, U+2029, U+202F, U+205F and U+3000. \<open>spaceRunes\<close>
  lists their encodings; \<open>stripRunes\<close> removes the listed encodings from the front.
\<close>

definition spaceRunes :: "string list" where
  "spaceRunes =
     [[CHR 0x09], [CHR 0x0A], [CHR 0x0B], [CHR 0x0C], [CHR 0x0D], [CHR 0x20],
      [CHR 0xC2, CHR 0x85], [CHR 0xC2, CHR 0xA0], [CHR 0xE1, CHR 0x9A, CHR 0x80],
      [CHR 0xE2, CHR 0x80, CHR 0x80], [CHR 0xE2, CHR 0x80, CHR 0x81],
      [CHR 0xE2, CHR 0x80, CHR 0x82], [CHR 0xE2, CHR 0x80, CHR 0x83],
      [CHR 0xE2, CHR 0x80, CHR 0x84], [CHR 0xE2, CHR 0x80, CHR 0x85],
      [CHR 0xE2, CHR 0x80, CHR 0x86], [CHR 0xE2, CHR 0x80, CHR 0x87],
      [CHR 0xE2, CHR 0x80, CHR 0x88], [CHR 0xE2, CHR 0x80, CHR 0x89],
      [CHR 0xE2, CHR 0x80, CHR 0x8A], [CHR 0xE2, CHR 0x80, CHR 0xA8],
      [CHR 0xE2, CHR 0x80, CHR 0xA9], [CHR 0xE2, CHR 0x80, CHR 0xAF],
      [CHR 0xE2, CHR 0x81, CHR 0x9F], [CHR 0xE3, CHR 0x80, CHR 0x80]]"

function stripRunes :: "string list \<Rightarrow> string \<Rightarrow> string" where
  "stripRunes runes s =
     (case find (\<lambda>r. r \<noteq> [] \<and> take (length r) s = r) runes of
        None \<Rightarrow> s
      | Some r \<Rightarrow> stripRunes runes (drop (length r) s))"
  by pat_completeness auto
termination
proof (relation "measure (\<lambda>(runes, s). length s)")
  show "wf (measure (\<lambda>(runes, s). length s))" by simp
next
  fix runes :: "string list" and s r :: string
  assume "find (\<lambda>r. r \<noteq> [] \<and> take (length r) s = r) runes = Some r"
  then have r: "r \<noteq> []" and t: "take (length r) s = r"
    by (auto simp add: find_Some_iff)
  from t have "length (take (length r) s) = length r"
    by simp
  then have "length r \<le> length s"
    by simp
  with r show "((runes, drop (length r) s), (runes, s)) \<in> measure (\<lambda>(runes, s). length s)"
    by (cases r) auto
qed

definition TrimSpace :: "string \<Rightarrow> string" where
  "TrimSpace s = rev (stripRunes (map rev spaceRunes) (rev (stripRunes spaceRunes s)))"

definition HasPrefix :: "string \<Rightarrow> string \<Rightarrow> bool" where
  "HasPrefix s pre = (length s \<ge> length pre \<and> take (length pre) s = pre)"

definition parseResponseLine :: "string \<Rightarrow> string" where
  "parseResponseLine line =
     (let str = TrimSpace line in
      if HasPrefix str ''>>> '' then TrimSpace (drop 4 str) else str)"

text \<open>
  The local variables of \<open>listen\<close>: the 256-byte array \<open>lineBuffer\<close>, \<open>linePos\<close>,
  \<open>expectingTextMode\<close> and \<open>lastByte\<close> (-1 for no previous byte).
\<close>

record listener =
  lineBuffer :: string
  linePos :: nat
  expectingTextMode :: bool
  lastByte :: int

definition listener_init :: listener where
  "listener_init =
     \<lparr>lineBuffer = replicate 256 (CHR 0x00), linePos = 0, expectingTextMode = False,
      lastByte = - 1\<rparr>"

text \<open>
  The block that ends a text line, written three times in \<open>listen\<close>: parse
  \<open>lineBuffer[:linePos]\<close>, reset \<open>linePos\<close>, and route a non-empty content.
\<close>

definition complete_line :: "listener \<Rightarrow> SerialTransport \<Rightarrow> (listener \<times> SerialTransport) option" where
  "complete_line L s =
     (let content = parseResponseLine (take (linePos L) (lineBuffer L));
          L1 = L\<lparr>linePos := 0\<rparr>
      in if content \<noteq> []
         then map_option (Pair L1) (processPendingCommands content s)
         else Some (L1, s))"

text \<open>
  The body of the loop \<open>for i := 0; i < n; i++\<close> of \<open>listen\<close> for one byte: the
  \<open>switch\<close> with its five cases in the order of the source, then \<open>lastByte = b\<close>.
\<close>

definition listen_switch :: "char \<Rightarrow> listener \<Rightarrow> SerialTransport \<Rightarrow> (listener \<times> SerialTransport) option" where
  "listen_switch c L s =
     (let b = (of_char c :: int) in
      if lastByte L = 0x0D \<and> b = 0x0A then
        map_option (\<lambda>(L1, s1). (L1\<lparr>expectingTextMode := False\<rparr>, s1))
          (if linePos L > 0 then complete_line L s else Some (L, s))
      else if b \<ge> 32 \<or> b = 0x09 then
        (let L1 = L\<lparr>expectingTextMode := True\<rparr> in
         if linePos L1 < 256
         then Some (L1\<lparr>lineBuffer := (lineBuffer L1)[linePos L1 := c],
                        linePos := linePos L1 + 1\<rparr>, s)
         else Some (L1, s))
      else if b = 0x0D then
        (if expectingTextMode L \<or> linePos L > 0
         then Some (L\<lparr>expectingTextMode := True\<rparr>, s)
         else Some (L, s))
      else if b = 0x0A then
        (let buttonCombo =
               (lastButtonMask s \<noteq> 0
                \<or> (lastByte L \<ge> 0 \<and> lastByte L < 32 \<and> lastByte L \<noteq> 0x0D)
                \<or> (linePos L > 0 \<and> \<not> expectingTextMode L));
             (L1, s1) =
               (if buttonCombo
                then (L\<lparr>expectingTextMode := False, linePos := 0\<rparr>, handleButtonData b s)
                else (L, s))
         in if \<not> buttonCombo then
              (if lastByte L1 = 0x0D then
                 map_option (\<lambda>(L2, s2). (L2\<lparr>expectingTextMode := False\<rparr>, s2))
                   (if linePos L1 > 0 then complete_line L1 s1 else Some (L1, s1))
               else if linePos L1 > 0 \<and> expectingTextMode L1 then
                 map_option (\<lambda>(L2, s2). (L2\<lparr>expectingTextMode := False\<rparr>, s2))
                   (complete_line L1 s1)
               else if expectingTextMode L1 then
                 Some (L1\<lparr>expectingTextMode := False\<rparr>, s1)
               else
                 Some (L1\<lparr>expectingTextMode := False, linePos := 0\<rparr>, handleButtonData b s1))
            else Some (L1, s1))
      else
        (let s1 = (if lastByte L = 0x0D then handleButtonData 0x0D s else s)
         in Some (L\<lparr>expectingTextMode := False, linePos := 0\<rparr>, handleButtonData b s1)))"

definition listen_byte :: "char \<Rightarrow> listener \<times> SerialTransport \<Rightarrow> (listener \<times> SerialTransport) option" where
  "listen_byte c st =
     map_option (\<lambda>(L1, s1). (L1\<lparr>lastByte := of_char c\<rparr>, s1))
       (listen_switch c (fst st) (snd st))"

text \<open>
  What the read loop does to the transport, as a sequence of events: a byte taken from
  the read buffer, or a call of \<open>cleanupTimedOutCommands\<close> at a given time.
\<close>

datatype loop_event = Byte char | Cleanup int

fun loop_step :: "loop_event \<Rightarrow> listener \<times> SerialTransport \<Rightarrow> (listener \<times> SerialTransport) option" where
  "loop_step (Byte c) st = listen_byte c st"
| "loop_step (Cleanup now) st = Some (fst st, cleanupTimedOutCommands now (snd st))"

fun run_loop :: "loop_event list \<Rightarrow> listener \<times> SerialTransport \<Rightarrow> (listener \<times> SerialTransport) option" where
  "run_loop [] st = Some st"
| "run_loop (e # es) st = (case loop_step e st of None \<Rightarrow> None | Some st' \<Rightarrow> run_loop es st')"

section \<open>Connection lifecycle\<close>

text \<open>
  What the operating system answers during \<open>Connect\<close> or \<open>attemptReconnect\<close>: the
  result of \<open>s.FindCOMPort()\<close> (whose port scan is not modelled), and the errors, if
  any, of \<open>serial.Open\<close>, of the \<open>Write\<close> of the baud-change bytes and of \<open>SetMode\<close>.
\<close>

record connect_env =
  env_find :: "error + string"
  env_open :: "error option"
  env_write :: "error option"
  env_setmode :: "error option"

definition baudChangeCommand :: string where
  "baudChangeCommand =
     [CHR 0xDE, CHR 0xAD, CHR 0x05, CHR 0x00, CHR 0xA5, CHR 0x00, CHR 0x09, CHR 0x3D, CHR 0x00]"

fun error_Error :: "error \<Rightarrow> string" where
  "error_Error (MakcuError b m) = m"
| "error_Error (IOError m) = m"

definition changeBaudTo4M :: "connect_env \<Rightarrow> SerialTransport \<Rightarrow> error option \<times> SerialTransport" where
  "changeBaudTo4M env s =
     (if serialPort s = None then (Some (NewConnectionError ''serial port not open''), s)
      else
        let s1 = port_Write baudChangeCommand s in
        case env_write env of
          Some err \<Rightarrow> (Some err, s1)
        | None \<Rightarrow>
            (case env_setmode env of
               Some err \<Rightarrow> (Some err, s1)
             | None \<Rightarrow> (None, s1\<lparr>currentBaud := 4000000\<rparr>)))"

definition send_init :: "SerialTransport \<Rightarrow> SerialTransport" where
  "send_init s = (if sendInit s then port_Write (''km.buttons(1)'' @ [CR]) s else s)"

definition Connect :: "connect_env \<Rightarrow> SerialTransport \<Rightarrow> error option \<times> SerialTransport" where
  "Connect env s =
     (if isConnected s then (None, s)
      else
        case (if overridePort s then Inr (s\<lparr>Port := fallbackPort s\<rparr>)
              else case env_find env of
                     Inl err \<Rightarrow> Inl err
                   | Inr port \<Rightarrow>
                       if port = [] then Inl (NewConnectionError ''Makcu device not found'')
                       else Inr (s\<lparr>Port := port\<rparr>)) of
          Inl err \<Rightarrow> (Some err, s)
        | Inr s1 \<Rightarrow>
            let s2 = s1\<lparr>portOpens := portOpens s1 @ [Port s1]\<rparr> in
            case env_open env of
              Some err \<Rightarrow>
                (Some (NewConnectionError
                   (''failed to open '' @ Port s2 @ '': '' @ error_Error err)), s2)
            | None \<Rightarrow>
                let s3 = s2\<lparr>serialPort := Some (Port s2)\<rparr>;
                    (berr, s4) = changeBaudTo4M env s3
                in case berr of
                     Some err \<Rightarrow>
                       (Some (NewConnectionError
                          (''failed to switch to 4M baud: '' @ error_Error err)),
                        s4\<lparr>serialPort := None\<rparr>)
                   | None \<Rightarrow>
                       (None, send_init (s4\<lparr>isConnected := True, reconnectAttempts := 0\<rparr>)))"

definition Disconnect :: "SerialTransport \<Rightarrow> SerialTransport" where
  "Disconnect s = s\<lparr>isConnected := False, pendingCommands := [], serialPort := None\<rparr>"

definition IsConnected :: "SerialTransport \<Rightarrow> bool" where
  "IsConnected s = (isConnected s \<and> serialPort s \<noteq> None)"

text \<open>
  \<open>attemptReconnect\<close>. Closing a port leaves the field \<open>serialPort\<close> as it is (the
  source does not set it to \<open>nil\<close>).
\<close>

definition attemptReconnect :: "connect_env \<Rightarrow> SerialTransport \<Rightarrow> SerialTransport" where
  "attemptReconnect env s =
     (if reconnectAttempts s \<ge> maxReconnectAttempts then s\<lparr>isConnected := False\<rparr>
      else
        let s1 = s\<lparr>reconnectAttempts := reconnectAttempts s + 1\<rparr> in
        case env_find env of
          Inl err \<Rightarrow> s1
        | Inr port \<Rightarrow>
            if port = [] then s1
            else
              let s2 = s1\<lparr>Port := port\<rparr>;
                  s3 = s2\<lparr>portOpens := portOpens s2 @ [Port s2]\<rparr>
              in case env_open env of
                   Some err \<Rightarrow> s3
                 | None \<Rightarrow>
                     let s4 = s3\<lparr>serialPort := Some (Port s3)\<rparr>;
                         (berr, s5) = changeBaudTo4M env s4
                     in case berr of
                          Some err \<Rightarrow> s5
                        | None \<Rightarrow> (send_init s5)\<lparr>reconnectAttempts := 0\<rparr>)"

text \<open>An attempt reconnects when the port is found, opens, and takes the new baud rate.\<close>

definition reconnects :: "connect_env \<Rightarrow> bool" where
  "reconnects env =
     (case env_find env of
        Inl err \<Rightarrow> False
      | Inr port \<Rightarrow> port \<noteq> [] \<and> env_open env = None \<and> env_write env = None
                     \<and> env_setmode env = None)"

text \<open>
  The read loop when \<open>Read\<close> returns an error: \<open>listen_read_error\<close> is the branch
  \<open>if err != nil\<close>, which either goes on with the loop (\<open>continue\<close>) or leaves it
  (\<open>return\<close>). \<open>listen_errors\<close> is the loop over a run of failing reads, one
  environment per iteration, with the loop condition \<open>s.isConnected.Load()\<close>.
\<close>

datatype loop_control = Continue | Return

definition listen_read_error :: "connect_env \<Rightarrow> SerialTransport \<Rightarrow> loop_control \<times> SerialTransport" where
  "listen_read_error env s =
     (if isConnected s
      then (if autoReconnect s then (Continue, attemptReconnect env s) else (Return, s))
      else (Continue, s))"

fun listen_errors :: "connect_env list \<Rightarrow> SerialTransport \<Rightarrow> SerialTransport" where
  "listen_errors [] s = s"
| "listen_errors (env # envs) s =
     (if \<not> isConnected s then s
      else case listen_read_error env s of
             (Return, s') \<Rightarrow> s'
           | (Continue, s') \<Rightarrow> listen_errors envs s')"

section \<open>Lock state cache (mouse.go)\<close>

definition MouseButton_String :: "MouseButton \<Rightarrow> string" where
  "MouseButton_String b =
     (if b = 0 then ''left'' else if b = 1 then ''right'' else if b = 2 then ''middle''
      else if b = 3 then ''mouse4'' else if b = 4 then ''mouse5'' else ''unknown'')"

text \<open>
  \<open>strings.ToUpper\<close> on ASCII text; it is only ever applied to the names that
  \<open>String\<close> returns.
\<close>

definition ToUpper :: "string \<Rightarrow> string" where
  "ToUpper s =
     map (\<lambda>c. if 97 \<le> (of_char c :: nat) \<and> (of_char c :: nat) \<le> 122
              then char_of ((of_char c :: nat) - 32) else c) s"

record lockInfo =
  lockCmd :: string
  unlockCmd :: string
  queryCmd :: string
  bit' :: nat

definition lockTargets :: "(string \<times> lockInfo) list" where
  "lockTargets =
     [(''LEFT'', \<lparr>lockCmd = ''km.lock_ml(1)'', unlockCmd = ''km.lock_ml(0)'', queryCmd = ''km.lock_ml()'', bit' = 0\<rparr>),
      (''RIGHT'', \<lparr>lockCmd = ''km.lock_mr(1)'', unlockCmd = ''km.lock_mr(0)'', queryCmd = ''km.lock_mr()'', bit' = 1\<rparr>),
      (''MIDDLE'', \<lparr>lockCmd = ''km.lock_mm(1)'', unlockCmd = ''km.lock_mm(0)'', queryCmd = ''km.lock_mm()'', bit' = 2\<rparr>),
      (''MOUSE4'', \<lparr>lockCmd = ''km.lock_ms1(1)'', unlockCmd = ''km.lock_ms1(0)'', queryCmd = ''km.lock_ms1()'', bit' = 3\<rparr>),
      (''MOUSE5'', \<lparr>lockCmd = ''km.lock_ms2(1)'', unlockCmd = ''km.lock_ms2(0)'', queryCmd = ''km.lock_ms2()'', bit' = 4\<rparr>),
      (''X'', \<lparr>lockCmd = ''km.lock_mx(1)'', unlockCmd = ''km.lock_mx(0)'', queryCmd = ''km.lock_mx()'', bit' = 5\<rparr>),
      (''Y'', \<lparr>lockCmd = ''km.lock_my(1)'', unlockCmd = ''km.lock_my(0)'', queryCmd = ''km.lock_my()'', bit' = 6\<rparr>)]"

record Mouse =
  lockStatesCache :: int
  cacheValid :: bool

definition NewMouse :: Mouse where
  "NewMouse = \<lparr>lockStatesCache = 0, cacheValid = False\<rparr>"

text \<open>
  The methods of \<open>Mouse\<close> reach the device through \<open>m.transport.SendCommand\<close> only. Its
  return value is an input: \<open>send command expectResponse timeout\<close> is what the call
  with these arguments returns. Every method returns, after its result and the new
  \<open>Mouse\<close>, the list of the \<open>SendCommand\<close> calls it made, in order.
\<close>

type_synonym send_call = "string \<times> bool \<times> int"

type_synonym send_oracle = "string \<Rightarrow> bool \<Rightarrow> int \<Rightarrow> error + string"

definition millisecond :: int where
  "millisecond = 1000000"

definition set_cache_bit :: "bool \<Rightarrow> nat \<Rightarrow> Mouse \<Rightarrow> Mouse" where
  "set_cache_bit locked b m =
     (if locked then m\<lparr>lockStatesCache := lockStatesCache m OR push_bit b 1\<rparr>
      else m\<lparr>lockStatesCache := lockStatesCache m AND NOT (push_bit b 1)\<rparr>)"

definition setLock :: "string \<Rightarrow> bool \<Rightarrow> send_oracle \<Rightarrow> Mouse \<Rightarrow> error option \<times> Mouse \<times> send_call list" where
  "setLock name lock send m =
     (case map_of lockTargets name of
        None \<Rightarrow> (Some (NewCommandError (''unknown lock target: '' @ name)), m, [])
      | Some info \<Rightarrow>
          let cmd = (if lock then lockCmd info else unlockCmd info) in
          case send cmd False 0 of
            Inl err \<Rightarrow> (Some err, m, [(cmd, False, 0)])
          | Inr r \<Rightarrow>
              ((None, (set_cache_bit lock (bit' info) m)\<lparr>cacheValid := True\<rparr>,
                [(cmd, False, 0)])))"

definition IsLocked :: "MouseButton \<Rightarrow> send_oracle \<Rightarrow> Mouse \<Rightarrow> (error + bool) \<times> Mouse \<times> send_call list" where
  "IsLocked button send m =
     (let name = ToUpper (MouseButton_String button) in
      case map_of lockTargets name of
        None \<Rightarrow>
          (Inl (NewCommandError (''unsupported lock target: '' @ MouseButton_String button)),
           m, [])
      | Some info \<Rightarrow>
          if cacheValid m
          then (Inr (lockStatesCache m AND push_bit (bit' info) 1 \<noteq> 0), m, [])
          else
            case send (queryCmd info) True (50 * millisecond) of
              Inl err \<Rightarrow> (Inl err, m, [(queryCmd info, True, 50 * millisecond)])
            | Inr resp \<Rightarrow>
                let locked = (TrimSpace resp = ''1'')
                in (Inr locked, set_cache_bit locked (bit' info) m,
                    [(queryCmd info, True, 50 * millisecond)]))"

text \<open>
  \<open>GetAllLockStates\<close>; a name missing from \<open>lockTargets\<close> would read the zero
  \<open>lockInfo\<close>. The returned map is the list of pairs in the order of the targets.
\<close>

definition lock_target_names :: "string list" where
  "lock_target_names = [''LEFT'', ''RIGHT'', ''MIDDLE'', ''MOUSE4'', ''MOUSE5'', ''X'', ''Y'']"

definition query_target :: "send_oracle \<Rightarrow> string \<Rightarrow> (string \<times> bool) list \<times> Mouse \<times> send_call list
     \<Rightarrow> (string \<times> bool) list \<times> Mouse \<times> send_call list" where
  "query_target send name acc =
     (case acc of (states, m, calls) \<Rightarrow>
        let info = (case map_of lockTargets name of
                      Some i \<Rightarrow> i
                    | None \<Rightarrow> \<lparr>lockCmd = [], unlockCmd = [], queryCmd = [], bit' = 0\<rparr>);
            call = (queryCmd info, True, 50 * millisecond)
        in case send (queryCmd info) True (50 * millisecond) of
             Inl err \<Rightarrow> (states @ [(name, False)], m, calls @ [call])
           | Inr resp \<Rightarrow>
               let locked = (TrimSpace resp = ''1'')
               in (states @ [(name, locked)], set_cache_bit locked (bit' info) m,
                   calls @ [call]))"

definition GetAllLockStates :: "send_oracle \<Rightarrow> Mouse \<Rightarrow> (string \<times> bool) list \<times> Mouse \<times> send_call list" where
  "GetAllLockStates send m =
     (if cacheValid m
      then (map (\<lambda>i. (lock_target_names ! i, lockStatesCache m AND push_bit i 1 \<noteq> 0)) [0..<7],
            m, [])
      else
        case fold (query_target send) lock_target_names ([], m, []) of
          (states, m', calls) \<Rightarrow> (states, m'\<lparr>cacheValid := True\<rparr>, calls))"

definition InvalidateCache :: "Mouse \<Rightarrow> Mouse" where
  "InvalidateCache m = m\<lparr>cacheValid := False\<rparr>"

section \<open>Invariants and example states\<close>

text \<open>The invariant of the two masks: they agree on the bit positions 0 to 7.\<close>

definition masks_agree :: "SerialTransport \<Rightarrow> bool" where
  "masks_agree s = (\<forall>i<8. bit (buttonStates s) i = bit (lastButtonMask s) i)"

text \<open>
  The invariant of the pending-command table in every state the methods produce: the
  counter is not negative, the keys are distinct (the table is a map) and are ids
  between 0 and 9999, each entry carries its own id and its own channel, and every
  channel has been allocated. The lemmas \<open>transport_ok_*\<close> below show that the
  constructor establishes it and that the methods keep it.
\<close>

definition transport_ok :: "SerialTransport \<Rightarrow> bool" where
  "transport_ok s =
     (0 \<le> commandCounter s
      \<and> distinct (map fst (pendingCommands s))
      \<and> distinct (map (\<lambda>e. ResultCh (snd e)) (pendingCommands s))
      \<and> (\<forall>e \<in> set (pendingCommands s).
            0 \<le> fst e \<and> fst e < 10000 \<and> CommandID (snd e) = fst e
            \<and> ResultCh (snd e) < nextChan s))"

text \<open>
  A connected transport with two commands pending, the older one (id 3) listed second.
\<close>

definition two_pending :: SerialTransport where
  "two_pending =
     (NewSerialTransport ''COM3'' True True False)
       \<lparr>isConnected := True, serialPort := Some ''COM3'', commandCounter := 7,
        pendingCommands :=
          [(7, \<lparr>CommandID = 7, Command = ''km.version()'', ResultCh = 1, Timestamp = 2500000000\<rparr>),
           (3, \<lparr>CommandID = 3, Command = ''km.lock_ml()'', ResultCh = 0, Timestamp = 1000000000\<rparr>)],
        nextChan := 2\<rparr>"

text \<open>
  The stripping that the specification describes, for comparison with \<open>strip_result\<close>:
  a trailing \<open>#\<close> followed by one or more decimal digits is removed, and a text without
  such a suffix is returned as it is.
\<close>

definition is_digit :: "char \<Rightarrow> bool" where
  "is_digit c = (48 \<le> (of_char c :: nat) \<and> (of_char c :: nat) \<le> 57)"

definition strip_id_suffix_spec :: "string \<Rightarrow> string" where
  "strip_id_suffix_spec t =
     (let ds = takeWhile is_digit (rev t); rest = dropWhile is_digit (rev t)
      in if ds \<noteq> [] \<and> rest \<noteq> [] \<and> hd rest = CHR ''#'' then rev (tl rest) else t)"

text \<open>A transport after a successful \<open>Connect\<close> on port COM3, nothing pending.\<close>

definition connected_transport :: SerialTransport where
  "connected_transport =
     (NewSerialTransport [] True True False)
       \<lparr>Port := ''COM3'', isConnected := True, serialPort := Some ''COM3'',
        currentBaud := 4000000\<rparr>"

text \<open>The connected transport with a response text waiting in channel 0.\<close>

definition slot_holding :: "string \<Rightarrow> SerialTransport" where
  "slot_holding t = connected_transport\<lparr>chans := (chans connected_transport)(0 := Some t),
                                         nextChan := 1\<rparr>"

text \<open>The local variables of \<open>listen\<close> after the two bytes \<open>OK\<close> have been read.\<close>

definition listener_after_OK :: listener where
  "listener_after_OK =
     \<lparr>lineBuffer = ''OK'' @ replicate 254 (CHR 0x00), linePos = 2,
      expectingTextMode = True, lastByte = 0x4B\<rparr>"

text \<open>No entry of the table holds the channel \<open>ch\<close>.\<close>

definition chan_unused :: "chan \<Rightarrow> SerialTransport \<Rightarrow> bool" where
  "chan_unused ch s = (\<forall>e \<in> set (pendingCommands s). ResultCh (snd e) \<noteq> ch)"

text \<open>The test of \<open>cleanupTimedOutCommands\<close> on one entry.\<close>

definition stale :: "int \<Rightarrow> int \<times> PendingCommand \<Rightarrow> bool" where
  "stale now e = (now - Timestamp (snd e) > second)"

text \<open>
  Two answers of the operating system: no port is found (\<open>FindCOMPort\<close> returns the
  empty name), and the device is back on COM3 and every step succeeds.
\<close>

definition device_not_found :: connect_env where
  "device_not_found =
     \<lparr>env_find = Inr [], env_open = None, env_write = None, env_setmode = None\<rparr>"

definition device_found :: connect_env where
  "device_found =
     \<lparr>env_find = Inr ''COM3'', env_open = None, env_write = None, env_setmode = None\<rparr>"

text \<open>A device that answers every query with \<open>1\<close>.\<close>

definition always_locked :: send_oracle where
  "always_locked command expectResponse timeout = Inr ''1''"

section \<open>Verified properties\<close>

subsection \<open>Button telegrams keep the two masks equal\<close>

lemma and_push_bit_1_neq_0: "(x AND 2 ^ b \<noteq> 0) = bit (x::int) b"
  using bit_iff_and_push_bit_not_eq_0 [of x b] by simp

lemma and_push_bit_1_eq_0: "(x AND 2 ^ b = 0) = (\<not> bit (x::int) b)"
  using bit_iff_and_push_bit_not_eq_0 [of x b] by simp

lemma handleBit_lastButtonMask: "lastButtonMask (handleBit v ch b s) = lastButtonMask s"
  by (simp add: handleBit_def Let_def)

lemma handleBit_bit:
  "bit (buttonStates (handleBit v ch b s)) i =
     (if i = b \<and> bit ch b then bit v b else bit (buttonStates s) i)"
  by (auto simp add: handleBit_def Let_def and_push_bit_1_neq_0 and_push_bit_1_eq_0 bit_simps)

lemma fold_handleBit_bit:
  "bit (buttonStates (fold (handleBit v ch) [0..<n] s)) i =
     (if i < n \<and> bit ch i then bit v i else bit (buttonStates s) i)"
  by (induction n) (auto simp add: handleBit_bit less_Suc_eq)

lemma fold_handleBit_lastButtonMask:
  "lastButtonMask (fold (handleBit v ch) bs s) = lastButtonMask s"
  by (induction bs arbitrary: s) (simp_all add: handleBit_lastButtonMask)

lemma handleButtonData_lastButtonMask: "lastButtonMask (handleButtonData v s) = v"
  by (simp add: handleButtonData_def Let_def)

lemma handleButtonData_bit:
  "bit (buttonStates (handleButtonData v s)) i =
     (if i < 8 \<and> bit v i \<noteq> bit (lastButtonMask s) i then bit v i else bit (buttonStates s) i)"
  by (auto simp add: handleButtonData_def Let_def fold_handleBit_bit bit_simps)

lemma byte_bits_high: "0 \<le> (v::int) \<Longrightarrow> v < 256 \<Longrightarrow> 8 \<le> i \<Longrightarrow> \<not> bit v i"
proof -
  assume "0 \<le> v" "v < 256" "8 \<le> i"
  then have "take_bit 8 v = v" by (simp add: take_bit_int_eq_self)
  then have "bit v i = bit (take_bit 8 v) i" by simp
  also have "\<dots> = False" using \<open>8 \<le> i\<close> by (simp add: bit_take_bit_iff)
  finally show ?thesis by simp
qed

lemma handleButtonData_masks_agree:
  "masks_agree s \<Longrightarrow> masks_agree (handleButtonData v s)"
  by (auto simp add: masks_agree_def handleButtonData_bit handleButtonData_lastButtonMask)

lemma fold_handleButtonData_masks_agree:
  "masks_agree s \<Longrightarrow> masks_agree (fold handleButtonData bs s)"
  by (induction bs arbitrary: s) (simp_all add: handleButtonData_masks_agree)

lemma handleButtonData_high_bits:
  "8 \<le> i \<Longrightarrow> bit (buttonStates (handleButtonData v s)) i = bit (buttonStates s) i"
  by (simp add: handleButtonData_bit)

lemma fold_handleButtonData_high_bits:
  "8 \<le> i \<Longrightarrow> bit (buttonStates (fold handleButtonData bs s)) i = bit (buttonStates s) i"
  by (induction bs arbitrary: s) (simp_all add: handleButtonData_high_bits)

lemma fold_handleButtonData_last:
  "bs \<noteq> [] \<Longrightarrow> lastButtonMask (fold handleButtonData bs s) = last bs"
  by (induction bs arbitrary: s) (auto simp add: handleButtonData_lastButtonMask)

lemma GetButtonStates_bits:
  "masks_agree s \<Longrightarrow>
   GetButtonStates s = map (\<lambda>i. (buttonNames ! i, bit (GetButtonMask s) i)) [0..<5]"
  by (simp add: GetButtonStates_def GetButtonMask_def masks_agree_def buttonNames_def
      and_push_bit_1_neq_0 upt_rec)

text \<open>
  Claim C10. Starting from a state whose \<open>buttonStates\<close> and \<open>lastButtonMask\<close> are both 0
  (as \<open>NewSerialTransport\<close> leaves them), after any sequence of calls of
  \<open>handleButtonData\<close> the two masks agree on the bit positions 0 to 7, the last telegram
  is the value \<open>GetButtonMask\<close> returns, and \<open>GetButtonStates\<close> reports, for each of the five
  named buttons, the bit of that same telegram. For telegram values that are bytes, as
  the read loop passes them, the two integers are equal as a whole.
\<close>

theorem handleButtonData_masks_equal:
  assumes "buttonStates s0 = 0" and "lastButtonMask s0 = 0"
  shows "(\<forall>i<8. bit (buttonStates (fold handleButtonData bs s0)) i
                = bit (lastButtonMask (fold handleButtonData bs s0)) i)
       \<and> (bs \<noteq> [] \<longrightarrow> GetButtonMask (fold handleButtonData bs s0) = last bs)
       \<and> ((\<forall>b\<in>set bs. 0 \<le> b \<and> b < 256) \<longrightarrow>
            buttonStates (fold handleButtonData bs s0) = lastButtonMask (fold handleButtonData bs s0))
       \<and> GetButtonStates (fold handleButtonData bs s0)
            = map (\<lambda>i. (buttonNames ! i, bit (GetButtonMask (fold handleButtonData bs s0)) i)) [0..<5]"
proof -
  let ?s = "fold handleButtonData bs s0"
  have init: "masks_agree s0" using assms by (simp add: masks_agree_def)
  have agree: "masks_agree ?s" by (rule fold_handleButtonData_masks_agree [OF init])
  have low: "\<forall>i<8. bit (buttonStates ?s) i = bit (lastButtonMask ?s) i"
    using agree by (simp add: masks_agree_def)
  have lst: "bs \<noteq> [] \<longrightarrow> GetButtonMask ?s = last bs"
    by (simp add: GetButtonMask_def fold_handleButtonData_last)
  have full: "buttonStates ?s = lastButtonMask ?s" if bytes: "\<forall>b\<in>set bs. 0 \<le> b \<and> b < 256"
  proof (rule bit_eqI)
    fix i
    show "bit (buttonStates ?s) i = bit (lastButtonMask ?s) i"
    proof (cases "i < 8")
      case True
      then show ?thesis using low by simp
    next
      case False
      then have hi: "8 \<le> i" by simp
      have l: "\<not> bit (buttonStates ?s) i"
        using hi assms by (simp add: fold_handleButtonData_high_bits)
      have r: "\<not> bit (lastButtonMask ?s) i"
      proof (cases "bs = []")
        case True
        then show ?thesis using assms by simp
      next
        case False
        then have "lastButtonMask ?s = last bs" by (rule fold_handleButtonData_last)
        moreover have "0 \<le> last bs \<and> last bs < 256" using False bytes by simp
        ultimately show ?thesis using hi byte_bits_high by simp
      qed
      from l r show ?thesis by simp
    qed
  qed
  show ?thesis using low lst full GetButtonStates_bits [OF agree] by blast
qed

theorem handleButtonData_masks_equal_witness:
  "buttonStates (NewSerialTransport ''COM3'' True True False) = 0
   \<and> lastButtonMask (NewSerialTransport ''COM3'' True True False) = 0
   \<and> GetButtonMask (fold handleButtonData [2, 10, 8] (NewSerialTransport ''COM3'' True True False)) = 8
   \<and> buttonStates (fold handleButtonData [2, 10, 8] (NewSerialTransport ''COM3'' True True False)) = 8"
proof -
  let ?init = "NewSerialTransport ''COM3'' True True False"
  let ?s = "fold handleButtonData [2, 10, 8] ?init"
  have h1: "buttonStates ?init = 0" and h2: "lastButtonMask ?init = 0"
    by (simp_all add: NewSerialTransport_def)
  have bytes: "\<forall>b\<in>set [2, 10, 8 :: int]. 0 \<le> b \<and> b < 256" by simp
  have ne: "[2, 10, 8 :: int] \<noteq> []" by simp
  from handleButtonData_masks_equal [OF h1 h2, of "[2, 10, 8]"] bytes ne
  have m: "GetButtonMask ?s = last [2, 10, 8]" and e: "buttonStates ?s = lastButtonMask ?s"
    by blast+
  have "GetButtonMask ?s = 8" using m by simp
  moreover have "buttonStates ?s = 8" using e \<open>GetButtonMask ?s = 8\<close>
    by (simp only: GetButtonMask_def)
  ultimately show ?thesis using h1 h2 by blast
qed

subsection \<open>Routing a response to the oldest pending command\<close>

lemma fold_oldest_step_mem: "fold oldest_step ks acc \<in> insert acc (set ks)"
  by (induction ks arbitrary: acc) (auto simp add: oldest_step_def)

lemma find_oldest_is_key: "tbl \<noteq> [] \<Longrightarrow> find_oldest tbl \<in> fst ` set tbl"
proof (cases tbl)
  case Nil
  assume "tbl \<noteq> []"
  with Nil show ?thesis by simp
next
  case (Cons e es)
  have "fold oldest_step (map fst es) (fst e) \<in> insert (fst e) (set (map fst es))"
    by (rule fold_oldest_step_mem)
  then show ?thesis using Cons by (simp add: find_oldest_def oldest_step_def)
qed

lemma fold_oldest_step_Min:
  "\<forall>k\<in>set ks. 0 \<le> k \<Longrightarrow> 0 \<le> acc \<Longrightarrow> fold oldest_step ks acc = Min (insert acc (set ks))"
proof (induction ks arbitrary: acc)
  case Nil
  then show ?case by simp
next
  case (Cons k ks)
  have step: "oldest_step k acc = min k acc"
    using Cons.prems by (auto simp add: oldest_step_def)
  have "fold oldest_step (k # ks) acc = fold oldest_step ks (min k acc)"
    by (simp add: step)
  also have "\<dots> = Min (insert (min k acc) (set ks))"
    using Cons.prems by (intro Cons.IH) auto
  also have "\<dots> = Min (insert acc (set (k # ks)))"
  proof (cases "set ks = {}")
    case True
    then show ?thesis by (simp add: min.commute)
  next
    case False
    then show ?thesis by (simp add: Min_insert2 min.assoc min.commute min.left_commute)
  qed
  finally show ?case .
qed

lemma find_oldest_Min:
  assumes "tbl \<noteq> []" and "\<forall>k\<in>fst ` set tbl. 0 \<le> k"
  shows "find_oldest tbl = Min (fst ` set tbl)"
proof (cases tbl)
  case Nil
  with assms show ?thesis by simp
next
  case (Cons e es)
  have "fold oldest_step (map fst es) (fst e) = Min (insert (fst e) (set (map fst es)))"
    using assms Cons by (intro fold_oldest_step_Min) auto
  then show ?thesis using Cons by (simp add: find_oldest_def oldest_step_def)
qed

lemma processPendingCommands_total: "\<exists>s'. processPendingCommands c s = Some s'"
proof (cases "c = [] \<or> pendingCommands s = []")
  case True
  then show ?thesis by (auto simp add: processPendingCommands_def)
next
  case False
  then have "find_oldest (pendingCommands s) \<in> fst ` set (pendingCommands s)"
    by (simp add: find_oldest_is_key)
  then obtain p where "map_of (pendingCommands s) (find_oldest (pendingCommands s)) = Some p"
    by (metis domD dom_map_of_conv_image_fst)
  then show ?thesis using False by (simp add: processPendingCommands_def Let_def)
qed

lemma chan_try_send_upd:
  "chan_try_send ch v st = st(ch := (case st ch of None \<Rightarrow> Some v | Some w \<Rightarrow> Some w))"
  by (auto simp add: chan_try_send_def split: option.splits)

lemma transport_ok_keys: "transport_ok s \<Longrightarrow> \<forall>k\<in>fst ` set (pendingCommands s). 0 \<le> k"
  by (auto simp add: transport_ok_def)

text \<open>
  Claim C1. In a state that satisfies the table invariant, \<open>processPendingCommands\<close>
  changes nothing when the table is empty or the content is the empty string.
  Otherwise the entry \<open>p\<close> under the least key is the one looked at, whatever the
  content (so an id written in the content plays no part): unless the content is the
  text of that command, the content is put into the channel of \<open>p\<close> if that channel is
  empty and dropped if it is full, the least key is deleted from the table, and every
  other key maps to what it mapped to before; no other field and no other channel
  changes.
\<close>

theorem processPendingCommands_resolves_oldest:
  assumes ok: "transport_ok s"
  shows "(pendingCommands s = [] \<or> c = [] \<longrightarrow> processPendingCommands c s = Some s)
       \<and> (pendingCommands s \<noteq> [] \<and> c \<noteq> [] \<longrightarrow>
            (\<exists>p. map_of (pendingCommands s) (Min (fst ` set (pendingCommands s))) = Some p
               \<and> (c \<noteq> Command p \<longrightarrow>
                    processPendingCommands c s =
                      Some (s\<lparr>chans := (chans s)(ResultCh p :=
                                          (case chans s (ResultCh p) of
                                             None \<Rightarrow> Some c | Some w \<Rightarrow> Some w)),
                              pendingCommands :=
                                AList.delete (Min (fst ` set (pendingCommands s)))
                                  (pendingCommands s)\<rparr>)
                    \<and> map_of (AList.delete (Min (fst ` set (pendingCommands s)))
                                (pendingCommands s))
                         (Min (fst ` set (pendingCommands s))) = None
                    \<and> (\<forall>k. k \<noteq> Min (fst ` set (pendingCommands s)) \<longrightarrow>
                          map_of (AList.delete (Min (fst ` set (pendingCommands s)))
                                    (pendingCommands s)) k
                            = map_of (pendingCommands s) k))))"
proof (intro conjI impI)
  assume "pendingCommands s = [] \<or> c = []"
  then show "processPendingCommands c s = Some s"
    by (auto simp add: processPendingCommands_def)
next
  let ?tbl = "pendingCommands s"
  let ?m = "Min (fst ` set ?tbl)"
  assume ne: "?tbl \<noteq> [] \<and> c \<noteq> []"
  then have old: "find_oldest ?tbl = ?m"
    using transport_ok_keys [OF ok] by (simp add: find_oldest_Min)
  have "?m \<in> fst ` set ?tbl"
    using ne find_oldest_is_key [of ?tbl] old by simp
  then obtain p where p: "map_of ?tbl ?m = Some p"
    by (metis domD dom_map_of_conv_image_fst)
  have route: "processPendingCommands c s =
      Some (s\<lparr>chans := (chans s)(ResultCh p :=
                 (case chans s (ResultCh p) of None \<Rightarrow> Some c | Some w \<Rightarrow> Some w)),
              pendingCommands := AList.delete ?m ?tbl\<rparr>)" if "c \<noteq> Command p"
    using ne that p old
    by (simp add: processPendingCommands_def Let_def chan_try_send_upd)
  have gone: "map_of (AList.delete ?m ?tbl) ?m = None"
    by (simp add: delete_conv')
  have rest: "\<forall>k. k \<noteq> ?m \<longrightarrow> map_of (AList.delete ?m ?tbl) k = map_of ?tbl k"
    by (simp add: delete_conv')
  show "\<exists>p. map_of ?tbl ?m = Some p
          \<and> (c \<noteq> Command p \<longrightarrow>
               processPendingCommands c s =
                 Some (s\<lparr>chans := (chans s)(ResultCh p :=
                            (case chans s (ResultCh p) of None \<Rightarrow> Some c | Some w \<Rightarrow> Some w)),
                         pendingCommands := AList.delete ?m ?tbl\<rparr>)
               \<and> map_of (AList.delete ?m ?tbl) ?m = None
               \<and> (\<forall>k. k \<noteq> ?m \<longrightarrow> map_of (AList.delete ?m ?tbl) k = map_of ?tbl k))"
    using p route gone rest by blast
qed

lemma two_pending_ok: "transport_ok two_pending"
  by (simp add: transport_ok_def two_pending_def NewSerialTransport_def)

lemma two_pending_oldest: "Min (fst ` set (pendingCommands two_pending)) = 3"
  by (simp add: two_pending_def NewSerialTransport_def)

theorem processPendingCommands_resolves_oldest_witness:
  "transport_ok two_pending
   \<and> map_option (\<lambda>s'. (chans s' 0, chans s' 1, map fst (pendingCommands s')))
       (processPendingCommands ''1#7'' two_pending) = Some (Some ''1#7'', None, [7])"
proof -
  let ?c = "''1#7''"
  from processPendingCommands_resolves_oldest [OF two_pending_ok, of ?c]
  obtain p where p: "map_of (pendingCommands two_pending) 3 = Some p"
    and r: "?c \<noteq> Command p \<longrightarrow>
       processPendingCommands ?c two_pending =
         Some (two_pending\<lparr>chans := (chans two_pending)(ResultCh p :=
                  (case chans two_pending (ResultCh p) of None \<Rightarrow> Some ?c | Some w \<Rightarrow> Some w)),
               pendingCommands := AList.delete 3 (pendingCommands two_pending)\<rparr>)"
    unfolding two_pending_oldest
    by (auto simp add: two_pending_def NewSerialTransport_def)
  from p have pv: "p = \<lparr>CommandID = 3, Command = ''km.lock_ml()'', ResultCh = 0, Timestamp = 1000000000\<rparr>"
    by (simp add: two_pending_def NewSerialTransport_def)
  from r pv have "processPendingCommands ?c two_pending =
         Some (two_pending\<lparr>chans := (chans two_pending)(0 :=
                  (case chans two_pending 0 of None \<Rightarrow> Some ?c | Some w \<Rightarrow> Some w)),
               pendingCommands := AList.delete 3 (pendingCommands two_pending)\<rparr>)"
    by simp
  then show ?thesis
    using two_pending_ok by (simp add: two_pending_def NewSerialTransport_def)
qed

subsection \<open>Echoes of the oldest command\<close>

lemma processPendingCommands_oldest:
  assumes ok: "transport_ok s"
    and ne: "pendingCommands s \<noteq> []" and c: "c \<noteq> []"
    and p: "map_of (pendingCommands s) (Min (fst ` set (pendingCommands s))) = Some p"
  shows "processPendingCommands c s =
     (if c = Command p then Some s
      else Some (s\<lparr>chans := (chans s)(ResultCh p :=
                     (case chans s (ResultCh p) of None \<Rightarrow> Some c | Some w \<Rightarrow> Some w)),
                   pendingCommands :=
                     AList.delete (Min (fst ` set (pendingCommands s))) (pendingCommands s)\<rparr>))"
proof -
  have "find_oldest (pendingCommands s) = Min (fst ` set (pendingCommands s))"
    using ne transport_ok_keys [OF ok] by (simp add: find_oldest_Min)
  then show ?thesis
    using ne c p by (simp add: processPendingCommands_def Let_def chan_try_send_upd)
qed

text \<open>
  Claim C5. With at least one command pending and \<open>p\<close> the entry under the least key,
  a line equal to the text of \<open>p\<close> leaves the whole state as it is (no table change, no
  channel written); and a following non-empty line that differs from that text
  resolves \<open>p\<close>: it is sent to the channel of \<open>p\<close> and the least key is deleted. (The
  read loop never routes an empty line.)
\<close>

theorem echo_is_discarded:
  assumes ok: "transport_ok s"
    and ne: "pendingCommands s \<noteq> []"
    and p: "map_of (pendingCommands s) (Min (fst ` set (pendingCommands s))) = Some p"
  shows "processPendingCommands (Command p) s = Some s
       \<and> (\<forall>c. c \<noteq> [] \<and> c \<noteq> Command p \<longrightarrow>
            Option.bind (processPendingCommands (Command p) s) (processPendingCommands c)
              = Some (s\<lparr>chans := (chans s)(ResultCh p :=
                            (case chans s (ResultCh p) of None \<Rightarrow> Some c | Some w \<Rightarrow> Some w)),
                        pendingCommands :=
                          AList.delete (Min (fst ` set (pendingCommands s))) (pendingCommands s)\<rparr>))"
proof -
  have echo: "processPendingCommands (Command p) s = Some s"
  proof (cases "Command p = []")
    case True
    then show ?thesis by (simp add: processPendingCommands_def)
  next
    case False
    then show ?thesis using processPendingCommands_oldest [OF ok ne False p] by simp
  qed
  have "Option.bind (processPendingCommands (Command p) s) (processPendingCommands c)
          = Some (s\<lparr>chans := (chans s)(ResultCh p :=
                        (case chans s (ResultCh p) of None \<Rightarrow> Some c | Some w \<Rightarrow> Some w)),
                    pendingCommands :=
                      AList.delete (Min (fst ` set (pendingCommands s))) (pendingCommands s)\<rparr>)"
    if "c \<noteq> []" and "c \<noteq> Command p" for c
    using echo that processPendingCommands_oldest [OF ok ne that(1) p] by simp
  with echo show ?thesis by blast
qed

theorem echo_is_discarded_witness:
  "transport_ok two_pending \<and> pendingCommands two_pending \<noteq> []
   \<and> processPendingCommands ''km.lock_ml()'' two_pending = Some two_pending
   \<and> map_option (\<lambda>s'. (chans s' 0, map fst (pendingCommands s')))
       (Option.bind (processPendingCommands ''km.lock_ml()'' two_pending)
          (processPendingCommands ''0'')) = Some (Some ''0'', [7])"
proof -
  let ?p = "\<lparr>CommandID = 3, Command = ''km.lock_ml()'', ResultCh = 0, Timestamp = 1000000000\<rparr>"
  have ne: "pendingCommands two_pending \<noteq> []"
    by (simp add: two_pending_def NewSerialTransport_def)
  have p: "map_of (pendingCommands two_pending) (Min (fst ` set (pendingCommands two_pending))) = Some ?p"
    by (simp add: two_pending_def NewSerialTransport_def)
  note inst = echo_is_discarded [OF two_pending_ok ne p, simplified PendingCommand.select_convs]
  have e: "processPendingCommands ''km.lock_ml()'' two_pending = Some two_pending"
    by (rule inst [THEN conjunct1])
  have a: "\<forall>c. c \<noteq> [] \<and> c \<noteq> ''km.lock_ml()'' \<longrightarrow>
            Option.bind (processPendingCommands ''km.lock_ml()'' two_pending)
              (processPendingCommands c)
            = Some (two_pending\<lparr>chans := (chans two_pending)(0 :=
                        (case chans two_pending 0 of None \<Rightarrow> Some c | Some w \<Rightarrow> Some w)),
                    pendingCommands :=
                      AList.delete (Min (fst ` set (pendingCommands two_pending)))
                        (pendingCommands two_pending)\<rparr>)"
    by (rule inst [THEN conjunct2])
  have n: "Option.bind (processPendingCommands ''km.lock_ml()'' two_pending)
              (processPendingCommands ''0'')
            = Some (two_pending\<lparr>chans := (chans two_pending)(0 :=
                        (case chans two_pending 0 of None \<Rightarrow> Some ''0'' | Some w \<Rightarrow> Some w)),
                    pendingCommands :=
                      AList.delete (Min (fst ` set (pendingCommands two_pending)))
                        (pendingCommands two_pending)\<rparr>)"
    by (rule a [rule_format]) simp
  have r: "map_option (\<lambda>s'. (chans s' 0, map fst (pendingCommands s')))
       (Option.bind (processPendingCommands ''km.lock_ml()'' two_pending)
          (processPendingCommands ''0'')) = Some (Some ''0'', [7])"
    unfolding n by (simp add: two_pending_def NewSerialTransport_def)
  from two_pending_ok ne e r show ?thesis by (intro conjI)
qed

subsection \<open>Sending while disconnected, and fire-and-forget commands\<close>

text \<open>
  Claim C7. When the connected flag is false or the port is \<open>nil\<close>, \<open>SendCommand\<close>
  returns at once, for every command, \<open>expectResponse\<close>, timeout and write outcome: the
  result is the error \<open>NewConnectionError("not connected")\<close>, which \<open>errors.Is\<close> tells
  apart from a timeout and from a command error, and the state is unchanged, so that
  nothing is written and the table has no new entry.
\<close>

theorem SendCommand_disconnected:
  assumes "\<not> isConnected s \<or> serialPort s = None"
  shows "SendCommand_begin command expectResponse timeout now werr s
           = (Returned (Inl (NewConnectionError ''not connected'')), s)
       \<and> errors_Is (NewConnectionError ''not connected'') ErrConnection
       \<and> \<not> errors_Is (NewConnectionError ''not connected'') ErrTimeout
       \<and> \<not> errors_Is (NewConnectionError ''not connected'') ErrCommand
       \<and> portWrites (snd (SendCommand_begin command expectResponse timeout now werr s))
           = portWrites s
       \<and> pendingCommands (snd (SendCommand_begin command expectResponse timeout now werr s))
           = pendingCommands s"
  using assms by (auto simp add: SendCommand_begin_def NewConnectionError_def)

theorem SendCommand_disconnected_witness:
  "\<not> isConnected (NewSerialTransport ''COM3'' True True False)
   \<and> SendCommand_begin ''km.version()'' True 0 0 None (NewSerialTransport ''COM3'' True True False)
       = (Returned (Inl (MakcuError ErrConnection ''not connected'')),
          NewSerialTransport ''COM3'' True True False)"
proof -
  have h: "\<not> isConnected (NewSerialTransport ''COM3'' True True False)"
    by (simp add: NewSerialTransport_def)
  then have d: "\<not> isConnected (NewSerialTransport ''COM3'' True True False)
      \<or> serialPort (NewSerialTransport ''COM3'' True True False) = None" by simp
  from SendCommand_disconnected [OF d, of "''km.version()''" True 0 0 None] h
  show ?thesis by (simp add: NewConnectionError_def)
qed

text \<open>
  Claim C8. While connected, \<open>SendCommand\<close> with \<open>expectResponse = false\<close> makes one
  \<open>Write\<close> call, with the command text followed by CR LF, and returns without reaching
  the \<open>select\<close> (the command text, or the error of the write); the pending-command
  table and the command counter are what they were.
\<close>

theorem SendCommand_fire_and_forget:
  assumes "isConnected s" and "serialPort s \<noteq> None"
  shows "SendCommand_begin command False timeout now werr s
           = (Returned (case werr of None \<Rightarrow> Inr command | Some err \<Rightarrow> Inl err),
              s\<lparr>portWrites := portWrites s @ [command @ [CR, LF]]\<rparr>)
       \<and> pendingCommands (snd (SendCommand_begin command False timeout now werr s))
           = pendingCommands s
       \<and> commandCounter (snd (SendCommand_begin command False timeout now werr s))
           = commandCounter s"
  using assms
  by (auto simp add: SendCommand_begin_def port_Write_def Let_def split: option.splits)

theorem SendCommand_fire_and_forget_witness:
  "isConnected connected_transport \<and> serialPort connected_transport \<noteq> None
   \<and> SendCommand_begin ''km.left(1)'' False 0 0 None connected_transport
       = (Returned (Inr ''km.left(1)''),
          connected_transport\<lparr>portWrites := [''km.left(1)'' @ [CHR 0x0D, CHR 0x0A]]\<rparr>)"
proof -
  have c: "isConnected connected_transport" and p: "serialPort connected_transport \<noteq> None"
    by (simp_all add: connected_transport_def NewSerialTransport_def)
  from SendCommand_fire_and_forget [OF c p, of "''km.left(1)''" 0 0 None] c p
  show ?thesis by (simp add: CR_def LF_def connected_transport_def NewSerialTransport_def)
qed

subsection \<open>The result of a command\<close>

lemma strings_Index_from_char:
  "strings_Index_from i s [x] =
     (if x \<in> set s then int (i + length (takeWhile (\<lambda>c. c \<noteq> x) s)) else - 1)"
proof (induction s arbitrary: i)
  case Nil
  show ?case by simp
next
  case (Cons c cs)
  show ?case
  proof (cases "c = x")
    case True
    then show ?thesis by simp
  next
    case False
    then have "strings_Index_from i (c # cs) [x] = strings_Index_from (Suc i) cs [x]"
      by simp
    also have "\<dots> = (if x \<in> set cs then int (Suc i + length (takeWhile (\<lambda>c. c \<noteq> x) cs)) else - 1)"
      by (rule Cons.IH)
    finally show ?thesis using False by simp
  qed
qed

lemma strip_result_takeWhile: "strip_result t = takeWhile (\<lambda>c. c \<noteq> CHR ''#'') t"
proof (cases "CHR ''#'' \<in> set t")
  case True
  then have "strip_result t = take (length (takeWhile (\<lambda>c. c \<noteq> CHR ''#'') t)) t"
    by (simp add: strip_result_def strings_Index_def strings_Index_from_char Let_def)
  then show ?thesis
    by (simp only: takeWhile_eq_take [symmetric])
next
  case False
  then have tw: "takeWhile (\<lambda>c. c \<noteq> CHR ''#'') t = t"
    by auto
  have "strip_result t = t" using False
    by (simp add: strip_result_def strings_Index_def strings_Index_from_char Let_def)
  then show ?thesis by (simp only: tw)
qed

text \<open>
  On a response \<open>u#ds\<close> with digits \<open>ds\<close> and no \<open>#\<close> in \<open>u\<close>, the code and the
  stripping of the specification agree.
\<close>

lemma strip_result_agrees_with_spec:
  assumes u: "CHR ''#'' \<notin> set u" and ds: "ds \<noteq> []" and dg: "\<forall>d\<in>set ds. is_digit d"
  shows "strip_result (u @ ''#'' @ ds) = strip_id_suffix_spec (u @ ''#'' @ ds)"
proof -
  have nd: "\<not> is_digit (CHR ''#'')" by (simp add: is_digit_def)
  have d': "\<And>x. x \<in> set (rev ds) \<Longrightarrow> is_digit x"
    using dg by simp
  have "takeWhile is_digit (rev ds @ CHR ''#'' # rev u)
          = rev ds @ takeWhile is_digit (CHR ''#'' # rev u)"
    using d' by (rule takeWhile_append2)
  then have tw: "takeWhile is_digit (rev ds @ CHR ''#'' # rev u) = rev ds"
    using nd by simp
  have "dropWhile is_digit (rev ds @ CHR ''#'' # rev u)
          = dropWhile is_digit (CHR ''#'' # rev u)"
    using d' by (rule dropWhile_append2)
  then have dw: "dropWhile is_digit (rev ds @ CHR ''#'' # rev u) = CHR ''#'' # rev u"
    using nd by simp
  have "strip_id_suffix_spec (u @ ''#'' @ ds) = u"
    using ds by (simp add: strip_id_suffix_spec_def Let_def tw dw)
  moreover have "strip_result (u @ ''#'' @ ds) = u"
    using u by (simp add: strip_result_takeWhile takeWhile_append)
  ultimately show ?thesis by simp
qed

text \<open>
  Claim C2, as the code has it. When the result channel holds the text \<open>t\<close> (and neither
  the stop channel nor the timer is ready), \<open>SendCommand\<close> returns \<open>t\<close> cut before its
  first \<open>#\<close>, and empties the channel. So a text without \<open>#\<close> is returned as it is, and
  a text \<open>u#ds\<close> whose part \<open>u\<close> has no \<open>#\<close> is returned as \<open>u\<close>.
\<close>

theorem SendCommand_result_cut_at_first_hash:
  assumes "chans s ch = Some t"
  shows "SendCommand_select cmdID ch command False False s
           = [(Inr (takeWhile (\<lambda>c. c \<noteq> CHR ''#'') t), s\<lparr>chans := (chans s)(ch := None)\<rparr>)]
       \<and> (CHR ''#'' \<notin> set t \<longrightarrow> takeWhile (\<lambda>c. c \<noteq> CHR ''#'') t = t)
       \<and> (\<forall>u ds. t = u @ ''#'' @ ds \<and> CHR ''#'' \<notin> set u
                  \<longrightarrow> takeWhile (\<lambda>c. c \<noteq> CHR ''#'') t = u)"
proof -
  have a: "SendCommand_select cmdID ch command False False s
           = [(Inr (takeWhile (\<lambda>c. c \<noteq> CHR ''#'') t), s\<lparr>chans := (chans s)(ch := None)\<rparr>)]"
    using assms by (simp add: SendCommand_select_def strip_result_takeWhile)
  have b: "CHR ''#'' \<notin> set t \<longrightarrow> takeWhile (\<lambda>c. c \<noteq> CHR ''#'') t = t"
    by auto
  have c: "\<forall>u ds. t = u @ ''#'' @ ds \<and> CHR ''#'' \<notin> set u
                  \<longrightarrow> takeWhile (\<lambda>c. c \<noteq> CHR ''#'') t = u"
    by (auto simp add: takeWhile_append)
  from a b c show ?thesis by blast
qed

text \<open>
  Claim C2 as stated fails: the response \<open>v3 #beta#4\<close> ends with the id suffix \<open>#4\<close>,
  and stripping that suffix leaves \<open>v3 #beta\<close>, but \<open>SendCommand\<close> returns \<open>v3 \<close>; and
  the response \<open>v3 #beta\<close>, which has no id suffix, is not returned unchanged.
\<close>

theorem SendCommand_result_not_suffix_strip:
  "map fst (SendCommand_select 4 0 ''km.version()'' False False (slot_holding ''v3 #beta#4''))
     = [Inr ''v3 '']
   \<and> strip_id_suffix_spec ''v3 #beta#4'' = ''v3 #beta''
   \<and> map fst (SendCommand_select 4 0 ''km.version()'' False False (slot_holding ''v3 #beta''))
     = [Inr ''v3 '']
   \<and> strip_id_suffix_spec ''v3 #beta'' = ''v3 #beta''"
  by (simp add: SendCommand_select_def strip_result_takeWhile strip_id_suffix_spec_def
      is_digit_def Let_def slot_holding_def)

theorem SendCommand_result_cut_at_first_hash_witness:
  "chans (slot_holding ''km.MAKCU#4'') 0 = Some ''km.MAKCU#4''
   \<and> map fst (SendCommand_select 4 0 ''km.version()'' False False (slot_holding ''km.MAKCU#4''))
     = [Inr ''km.MAKCU'']"
proof -
  let ?s = "slot_holding ''km.MAKCU#4''"
  have h: "chans ?s 0 = Some ''km.MAKCU#4''" by (simp add: slot_holding_def)
  have "CHR ''#'' \<notin> set ''km.MAKCU''" by simp
  then have "''km.MAKCU#4'' = ''km.MAKCU'' @ ''#'' @ ''4'' \<and> CHR ''#'' \<notin> set ''km.MAKCU''" by simp
  with SendCommand_result_cut_at_first_hash [OF h, of 4 "''km.version()''"]
  have "SendCommand_select 4 0 ''km.version()'' False False ?s
           = [(Inr (takeWhile (\<lambda>c. c \<noteq> CHR ''#'') ''km.MAKCU#4''), ?s\<lparr>chans := (chans ?s)(0 := None)\<rparr>)]"
    and "takeWhile (\<lambda>c. c \<noteq> CHR ''#'') ''km.MAKCU#4'' = ''km.MAKCU''"
    by blast+
  then show ?thesis using h by simp
qed

subsection \<open>A bare line feed in the byte stream\<close>

lemma of_char_LF: "(of_char LF :: int) = 10"
  by (simp add: LF_def)

lemma complete_line_routes:
  "complete_line L s =
     map_option (Pair (L\<lparr>linePos := 0\<rparr>))
       (processPendingCommands (parseResponseLine (take (linePos L) (lineBuffer L))) s)"
  by (simp add: complete_line_def Let_def processPendingCommands_def)

text \<open>
  Claim C4. The read loop on the byte LF when the previous byte is not CR. If the button
  mask is not zero, or there is a previous byte below 0x20 (other than CR), or the buffer
  is not empty while no text is expected, \<open>handleButtonData(0x0A)\<close> is called and the
  buffer is cleared. Otherwise, when text is expected and the buffer is not empty, the
  line in the buffer, trimmed by \<open>parseResponseLine\<close>, is routed and the buffer is
  cleared (routing the empty line changes nothing, which is why the source skips it;
  the trimmed line is \<open>TrimSpace\<close> of the buffer unless that starts with the prompt
  marker, which \<open>parseResponseLine\<close> removes);
  when text is expected and the buffer is empty, only the flag is cleared; and in the
  remaining case \<open>handleButtonData(0x0A)\<close> is called. In every case LF becomes the
  previous byte.
\<close>

theorem bare_LF_disambiguation:
  assumes "lastByte L \<noteq> 0x0D"
  shows "listen_byte LF (L, s) =
     (if lastButtonMask s \<noteq> 0
         \<or> (0 \<le> lastByte L \<and> lastByte L < 0x20 \<and> lastByte L \<noteq> 0x0D)
         \<or> (linePos L > 0 \<and> \<not> expectingTextMode L)
      then Some (L\<lparr>linePos := 0, expectingTextMode := False, lastByte := 0x0A\<rparr>,
                 handleButtonData 0x0A s)
      else if expectingTextMode L \<and> linePos L > 0
      then map_option (Pair (L\<lparr>linePos := 0, expectingTextMode := False, lastByte := 0x0A\<rparr>))
             (processPendingCommands (parseResponseLine (take (linePos L) (lineBuffer L))) s)
      else if expectingTextMode L
      then Some (L\<lparr>expectingTextMode := False, lastByte := 0x0A\<rparr>, s)
      else Some (L\<lparr>linePos := 0, expectingTextMode := False, lastByte := 0x0A\<rparr>,
                 handleButtonData 0x0A s))
    \<and> (\<not> HasPrefix (TrimSpace (take (linePos L) (lineBuffer L))) ''>>> '' \<longrightarrow>
          parseResponseLine (take (linePos L) (lineBuffer L))
            = TrimSpace (take (linePos L) (lineBuffer L)))"
proof
  show "listen_byte LF (L, s) =
     (if lastButtonMask s \<noteq> 0
         \<or> (0 \<le> lastByte L \<and> lastByte L < 0x20 \<and> lastByte L \<noteq> 0x0D)
         \<or> (linePos L > 0 \<and> \<not> expectingTextMode L)
      then Some (L\<lparr>linePos := 0, expectingTextMode := False, lastByte := 0x0A\<rparr>,
                 handleButtonData 0x0A s)
      else if expectingTextMode L \<and> linePos L > 0
      then map_option (Pair (L\<lparr>linePos := 0, expectingTextMode := False, lastByte := 0x0A\<rparr>))
             (processPendingCommands (parseResponseLine (take (linePos L) (lineBuffer L))) s)
      else if expectingTextMode L
      then Some (L\<lparr>expectingTextMode := False, lastByte := 0x0A\<rparr>, s)
      else Some (L\<lparr>linePos := 0, expectingTextMode := False, lastByte := 0x0A\<rparr>,
                 handleButtonData 0x0A s))"
    using assms
    by (auto simp add: listen_byte_def listen_switch_def of_char_LF Let_def complete_line_routes
        option.map_comp comp_def split: option.splits)
next
  show "\<not> HasPrefix (TrimSpace (take (linePos L) (lineBuffer L))) ''>>> '' \<longrightarrow>
          parseResponseLine (take (linePos L) (lineBuffer L))
            = TrimSpace (take (linePos L) (lineBuffer L))"
    by (simp add: parseResponseLine_def Let_def)
qed

theorem bare_LF_disambiguation_witness:
  "lastByte listener_after_OK \<noteq> 0x0D
   \<and> map_option (\<lambda>st. (linePos (fst st), expectingTextMode (fst st), lastByte (fst st),
                         chans (snd st) 0, map fst (pendingCommands (snd st))))
       (listen_byte LF (listener_after_OK, two_pending))
     = Some (0, False, 0x0A, Some ''OK'', [7])"
proof -
  have h: "lastByte listener_after_OK \<noteq> 0x0D"
    by (simp add: listener_after_OK_def)
  have m: "lastButtonMask two_pending = 0"
    by (simp add: two_pending_def NewSerialTransport_def)
  have line: "parseResponseLine (take (linePos listener_after_OK) (lineBuffer listener_after_OK)) = ''OK''"
    by (simp add: listener_after_OK_def parseResponseLine_def HasPrefix_def TrimSpace_def
        spaceRunes_def)
  have route: "processPendingCommands ''OK'' two_pending
      = Some (two_pending\<lparr>chans := (chans two_pending)(0 := Some ''OK''),
                pendingCommands := [(7, \<lparr>CommandID = 7, Command = ''km.version()'', ResultCh = 1, Timestamp = 2500000000\<rparr>)]\<rparr>)"
    by (simp add: processPendingCommands_def find_oldest_def oldest_step_def chan_try_send_def
        two_pending_def NewSerialTransport_def)
  from bare_LF_disambiguation [OF h, of two_pending, THEN conjunct1]
  have "listen_byte LF (listener_after_OK, two_pending)
      = map_option (Pair (listener_after_OK\<lparr>linePos := 0, expectingTextMode := False, lastByte := 0x0A\<rparr>))
          (processPendingCommands ''OK'' two_pending)"
    by (simp add: m line) (simp add: listener_after_OK_def)
  then show ?thesis using h by (simp add: route)
qed

subsection \<open>Cleanup of stale commands\<close>

lemma fold_cleanup_step:
  "fold (cleanup_step now) es tbl
     = filter (\<lambda>e. fst e \<notin> fst ` {x \<in> set es. stale now x}) tbl"
proof (induction es arbitrary: tbl)
  case Nil
  show ?case by simp
next
  case (Cons e es)
  show ?case
  proof (cases "stale now e")
    case True
    then have "fold (cleanup_step now) (e # es) tbl
        = fold (cleanup_step now) es (AList.delete (fst e) tbl)"
      by (simp add: cleanup_step_def stale_def)
    also have "\<dots> = filter (\<lambda>x. fst x \<notin> fst ` {x \<in> set es. stale now x})
                        (filter (\<lambda>x. fst x \<noteq> fst e) tbl)"
      by (simp add: Cons.IH AList.delete_eq case_prod_unfold eq_commute [of "fst e"])
    also have "\<dots> = filter (\<lambda>x. fst x \<notin> fst ` {x \<in> set (e # es). stale now x}) tbl"
      using True by (auto intro!: filter_cong)
    finally show ?thesis .
  next
    case False
    then have "fold (cleanup_step now) (e # es) tbl = fold (cleanup_step now) es tbl"
      by (simp add: cleanup_step_def stale_def)
    also have "\<dots> = filter (\<lambda>x. fst x \<notin> fst ` {x \<in> set es. stale now x}) tbl"
      by (rule Cons.IH)
    also have "\<dots> = filter (\<lambda>x. fst x \<notin> fst ` {x \<in> set (e # es). stale now x}) tbl"
      using False by (auto intro!: filter_cong)
    finally show ?thesis .
  qed
qed

lemma cleanup_filter:
  assumes "distinct (map fst (pendingCommands s))"
  shows "pendingCommands (cleanupTimedOutCommands now s)
           = filter (\<lambda>e. \<not> stale now e) (pendingCommands s)"
proof -
  have "fst e \<in> fst ` {x \<in> set (pendingCommands s). stale now x} \<longleftrightarrow> stale now e"
    if "e \<in> set (pendingCommands s)" for e
  proof
    assume "fst e \<in> fst ` {x \<in> set (pendingCommands s). stale now x}"
    then obtain x where x: "x \<in> set (pendingCommands s)" "stale now x" "fst x = fst e"
      by auto
    from assms x(1) that x(3) have "x = e"
      by (metis eq_key_imp_eq_value prod.collapse)
    with x(2) show "stale now e" by simp
  next
    assume "stale now e"
    with that show "fst e \<in> fst ` {x \<in> set (pendingCommands s). stale now x}" by auto
  qed
  then show ?thesis
    by (auto simp add: cleanupTimedOutCommands_def fold_cleanup_step intro!: filter_cong)
qed

lemma cleanup_chans [simp]: "chans (cleanupTimedOutCommands now s) = chans s"
  by (simp add: cleanupTimedOutCommands_def)

lemma cleanup_lookup:
  assumes d: "distinct (map fst (pendingCommands s))"
    and p: "map_of (pendingCommands s) k = Some p"
  shows "map_of (pendingCommands (cleanupTimedOutCommands now s)) k
           = (if stale now (k, p) then None else Some p)"
proof (cases "stale now (k, p)")
  case True
  have "k \<notin> fst ` set (filter (\<lambda>e. \<not> stale now e) (pendingCommands s))"
  proof
    assume "k \<in> fst ` set (filter (\<lambda>e. \<not> stale now e) (pendingCommands s))"
    then obtain v where v: "(k, v) \<in> set (pendingCommands s)" "\<not> stale now (k, v)"
      by auto
    from p have "(k, p) \<in> set (pendingCommands s)" by (rule map_of_SomeD)
    with d v(1) have "v = p" by (rule eq_key_imp_eq_value)
    with v(2) True show False by simp
  qed
  then have "map_of (filter (\<lambda>e. \<not> stale now e) (pendingCommands s)) k = None"
    by (simp add: map_of_eq_None_iff)
  with True show ?thesis by (simp add: cleanup_filter [OF d])
next
  case False
  have "map_of (filter (\<lambda>(k', v). \<not> stale now (k', v)) (pendingCommands s)) k = Some p"
    using p False by (rule map_of_filter_in)
  then show ?thesis using False by (simp add: cleanup_filter [OF d] case_prod_unfold)
qed

lemma fold_handleBit_frame:
  "pendingCommands (fold (handleBit v ch) bs s) = pendingCommands s
   \<and> chans (fold (handleBit v ch) bs s) = chans s"
  by (induction bs arbitrary: s) (simp_all add: handleBit_def Let_def)

lemma handleButtonData_frame [simp]:
  "pendingCommands (handleButtonData v s) = pendingCommands s"
  "chans (handleButtonData v s) = chans s"
  by (simp_all add: handleButtonData_def Let_def fold_handleBit_frame)

lemma processPendingCommands_chan_unused:
  assumes r: "processPendingCommands c s = Some s'" and u: "chan_unused ch s"
  shows "chan_unused ch s' \<and> chans s' ch = chans s ch"
proof (cases "c = [] \<or> pendingCommands s = []")
  case True
  with r have "s' = s" by (auto simp add: processPendingCommands_def split: if_splits)
  with u show ?thesis by simp
next
  case False
  let ?k = "find_oldest (pendingCommands s)"
  from r False obtain p where p: "map_of (pendingCommands s) ?k = Some p"
    by (auto simp add: processPendingCommands_def Let_def split: option.splits)
  then have "(?k, p) \<in> set (pendingCommands s)" by (rule map_of_SomeD)
  with u have ne: "ResultCh p \<noteq> ch" by (auto simp add: chan_unused_def)
  show ?thesis
  proof (cases "c = Command p")
    case True
    with r False p have "s' = s" by (simp add: processPendingCommands_def Let_def)
    with u show ?thesis by simp
  next
    case neq: False
    with r False p have s': "s' = s\<lparr>chans := chan_try_send (ResultCh p) c (chans s),
        pendingCommands := AList.delete ?k (pendingCommands s)\<rparr>"
      by (simp add: processPendingCommands_def Let_def)
    have "set (AList.delete ?k (pendingCommands s)) \<subseteq> set (pendingCommands s)"
      by (auto simp add: AList.delete_eq)
    with u have "chan_unused ch s'" by (auto simp add: s' chan_unused_def)
    moreover have "chans s' ch = chans s ch"
      using ne by (simp add: s' chan_try_send_upd)
    ultimately show ?thesis by simp
  qed
qed

lemma cleanup_chan_unused:
  "chan_unused ch s \<Longrightarrow> chan_unused ch (cleanupTimedOutCommands now s)"
proof -
  have "set (fold (cleanup_step now) es tbl) \<subseteq> set tbl" for es tbl
    by (simp add: fold_cleanup_step)
  then show "chan_unused ch s \<Longrightarrow> chan_unused ch (cleanupTimedOutCommands now s)"
    by (auto simp add: chan_unused_def cleanupTimedOutCommands_def)
qed

lemma listen_switch_cases:
  assumes "listen_switch c L s = Some (L', s')"
  shows "s' = s \<or> s' = handleButtonData (of_char c) s
       \<or> s' = handleButtonData (of_char c) (handleButtonData 0x0D s)
       \<or> (\<exists>content. processPendingCommands content s = Some s')"
  using assms
  by (auto simp add: listen_switch_def Let_def complete_line_routes
      split: if_splits option.splits)

lemma listen_switch_total: "\<exists>r. listen_switch c L s = Some r"
proof -
  have cl: "\<exists>r. complete_line L1 s1 = Some r" for L1 s1
    using processPendingCommands_total [of "parseResponseLine (take (linePos L1) (lineBuffer L1))" s1]
    by (auto simp add: complete_line_routes)
  show ?thesis
    using cl [of L s]
    by (auto simp add: listen_switch_def Let_def split: if_splits)
qed

lemma loop_step_total: "\<exists>L' s'. loop_step e (L, s) = Some (L', s')"
proof (cases e)
  case (Byte c)
  from listen_switch_total [of c L s] obtain r where "listen_switch c L s = Some r" ..
  then show ?thesis using Byte by (cases r) (simp add: listen_byte_def)
next
  case (Cleanup now)
  then show ?thesis by simp
qed

lemma loop_step_chan_unused:
  assumes r: "loop_step e (L, s) = Some (L', s')" and u: "chan_unused ch s"
  shows "chan_unused ch s' \<and> chans s' ch = chans s ch"
proof (cases e)
  case (Byte c)
  with r obtain L1 where "listen_switch c L s = Some (L1, s')"
    by (auto simp add: listen_byte_def)
  from listen_switch_cases [OF this] u show ?thesis
    by (auto simp add: chan_unused_def [of ch "handleButtonData _ _"]
        chan_unused_def [of ch s] dest: processPendingCommands_chan_unused [OF _ u])
next
  case (Cleanup now)
  with r have "s' = cleanupTimedOutCommands now s" by simp
  with u show ?thesis by (simp add: cleanup_chan_unused)
qed

lemma run_loop_chan_unused:
  "chan_unused ch s \<Longrightarrow>
   \<exists>L' s'. run_loop es (L, s) = Some (L', s') \<and> chan_unused ch s' \<and> chans s' ch = chans s ch"
proof (induction es arbitrary: L s)
  case Nil
  then show ?case by simp
next
  case (Cons e es)
  from loop_step_total [of e L s] obtain L1 s1 where st: "loop_step e (L, s) = Some (L1, s1)"
    by blast
  from loop_step_chan_unused [OF st Cons.prems]
  have u1: "chan_unused ch s1" and c1: "chans s1 ch = chans s ch" by simp_all
  from Cons.IH [OF u1, of L1] obtain L' s' where
    "run_loop es (L1, s1) = Some (L', s')" "chan_unused ch s'" "chans s' ch = chans s1 ch"
    by blast
  with st c1 show ?case by simp
qed

lemma reaped_chan_unused:
  assumes ok: "transport_ok s" and p: "map_of (pendingCommands s) k = Some p"
    and st: "now - Timestamp p > second"
  shows "chan_unused (ResultCh p) (cleanupTimedOutCommands now s)"
proof -
  from ok have d: "distinct (map fst (pendingCommands s))"
    and dc: "distinct (map (\<lambda>e. ResultCh (snd e)) (pendingCommands s))"
    by (simp_all add: transport_ok_def)
  from p have kp: "(k, p) \<in> set (pendingCommands s)" by (rule map_of_SomeD)
  have "ResultCh (snd e) \<noteq> ResultCh p"
    if e: "e \<in> set (pendingCommands (cleanupTimedOutCommands now s))" for e
  proof
    assume eq: "ResultCh (snd e) = ResultCh p"
    from e have e1: "e \<in> set (pendingCommands s)" and e2: "\<not> stale now e"
      by (simp_all add: cleanup_filter [OF d])
    from dc have inj: "inj_on (\<lambda>e. ResultCh (snd e)) (set (pendingCommands s))"
      by (simp add: distinct_map)
    have "ResultCh (snd e) = ResultCh (snd (k, p))" using eq by simp
    with inj have "e = (k, p)" using e1 kp by (rule inj_onD)
    with e2 st show False by (simp add: stale_def)
  qed
  then show ?thesis by (auto simp add: chan_unused_def)
qed

text \<open>
  Claim C6. For an entry \<open>p\<close> of the table under the key \<open>k\<close>:
  \<open>cleanupTimedOutCommands\<close> at time \<open>now\<close> writes to no channel; it removes the entry
  when \<open>now\<close> is more than one second after its timestamp and keeps it otherwise.
  Once a stale entry whose channel is empty has been removed, whatever bytes the
  read loop then processes and whenever it cleans up again, the read loop does not stop
  on a panic, the channel of \<open>p\<close> stays empty, the \<open>select\<close> of the caller of that
  command cannot take the result case (it stays blocked until its timer fires), and
  when the timer fires the caller gets the timeout error.
\<close>

theorem cleanup_reaps_stale_commands:
  assumes ok: "transport_ok s" and p: "map_of (pendingCommands s) k = Some p"
  shows "chans (cleanupTimedOutCommands now s) = chans s
       \<and> (now - Timestamp p > second \<longrightarrow>
            map_of (pendingCommands (cleanupTimedOutCommands now s)) k = None)
       \<and> (now - Timestamp p \<le> second \<longrightarrow>
            map_of (pendingCommands (cleanupTimedOutCommands now s)) k = Some p)
       \<and> (now - Timestamp p > second \<and> chans s (ResultCh p) = None \<longrightarrow>
            (\<forall>es L. \<exists>L' s'.
               run_loop es (L, cleanupTimedOutCommands now s) = Some (L', s')
               \<and> chans s' (ResultCh p) = None
               \<and> SendCommand_select k (ResultCh p) (Command p) False False s' = []
               \<and> map fst (SendCommand_select k (ResultCh p) (Command p) False True s')
                   = [Inl (NewTimeoutError (''command timed out: '' @ Command p))]))"
proof -
  from ok have d: "distinct (map fst (pendingCommands s))"
    by (simp add: transport_ok_def)
  have a: "chans (cleanupTimedOutCommands now s) = chans s" by simp
  have b: "now - Timestamp p > second \<longrightarrow>
      map_of (pendingCommands (cleanupTimedOutCommands now s)) k = None"
    by (simp add: cleanup_lookup [OF d p] stale_def)
  have c: "now - Timestamp p \<le> second \<longrightarrow>
      map_of (pendingCommands (cleanupTimedOutCommands now s)) k = Some p"
    by (simp add: cleanup_lookup [OF d p] stale_def)
  have e: "\<exists>L' s'.
       run_loop es (L, cleanupTimedOutCommands now s) = Some (L', s')
       \<and> chans s' (ResultCh p) = None
       \<and> SendCommand_select k (ResultCh p) (Command p) False False s' = []
       \<and> map fst (SendCommand_select k (ResultCh p) (Command p) False True s')
           = [Inl (NewTimeoutError (''command timed out: '' @ Command p))]"
    if st: "now - Timestamp p > second" and emp: "chans s (ResultCh p) = None" for es L
  proof -
    have "chan_unused (ResultCh p) (cleanupTimedOutCommands now s)"
      using ok p st by (rule reaped_chan_unused)
    from run_loop_chan_unused [OF this, of es L] obtain L' s' where
      r: "run_loop es (L, cleanupTimedOutCommands now s) = Some (L', s')"
      and ch: "chans s' (ResultCh p) = chans (cleanupTimedOutCommands now s) (ResultCh p)"
      by blast
    from ch emp have none: "chans s' (ResultCh p) = None" by simp
    from none have s1: "SendCommand_select k (ResultCh p) (Command p) False False s' = []"
      and s2: "map fst (SendCommand_select k (ResultCh p) (Command p) False True s')
           = [Inl (NewTimeoutError (''command timed out: '' @ Command p))]"
      by (simp_all add: SendCommand_select_def)
    show ?thesis
      by (rule exI [of _ L'], rule exI [of _ s']) (simp only: r none s1 s2 simp_thms)
  qed
  from a b c e show ?thesis by blast
qed

theorem cleanup_reaps_stale_commands_witness:
  "transport_ok two_pending
   \<and> map fst (pendingCommands (cleanupTimedOutCommands 2600000000 two_pending)) = [7]
   \<and> chans (cleanupTimedOutCommands 2600000000 two_pending) 0 = None
   \<and> (\<exists>L' s'. run_loop [Byte (CHR ''1''), Byte CR, Byte LF, Cleanup 2650000000]
                  (listener_init, cleanupTimedOutCommands 2600000000 two_pending) = Some (L', s')
        \<and> chans s' 0 = None
        \<and> SendCommand_select 3 0 ''km.lock_ml()'' False False s' = []
        \<and> map fst (SendCommand_select 3 0 ''km.lock_ml()'' False True s')
            = [Inl (MakcuError ErrTimeout ''command timed out: km.lock_ml()'')])"
proof -
  let ?p = "\<lparr>CommandID = 3, Command = ''km.lock_ml()'', ResultCh = 0, Timestamp = 1000000000\<rparr>"
  have p: "map_of (pendingCommands two_pending) 3 = Some ?p"
    by (simp add: two_pending_def NewSerialTransport_def)
  note inst = cleanup_reaps_stale_commands [OF two_pending_ok p, of 2600000000,
      simplified PendingCommand.select_convs]
  have st: "(2600000000::int) - 1000000000 > second" by (simp add: second_def)
  have emp: "chans two_pending 0 = None" by (simp add: two_pending_def NewSerialTransport_def)
  from inst have c: "chans (cleanupTimedOutCommands 2600000000 two_pending) = chans two_pending"
    by (rule conjunct1)
  from inst st emp have run: "\<forall>es L. \<exists>L' s'.
       run_loop es (L, cleanupTimedOutCommands 2600000000 two_pending) = Some (L', s')
       \<and> chans s' 0 = None
       \<and> SendCommand_select 3 0 ''km.lock_ml()'' False False s' = []
       \<and> map fst (SendCommand_select 3 0 ''km.lock_ml()'' False True s')
           = [Inl (NewTimeoutError (''command timed out: '' @ ''km.lock_ml()''))]"
    by blast
  have keys: "map fst (pendingCommands (cleanupTimedOutCommands 2600000000 two_pending)) = [7]"
    by (simp add: cleanupTimedOutCommands_def cleanup_step_def second_def two_pending_def
        NewSerialTransport_def)
  from run [rule_format, of "[Byte (CHR ''1''), Byte CR, Byte LF, Cleanup 2650000000]" listener_init]
  have r: "\<exists>L' s'. run_loop [Byte (CHR ''1''), Byte CR, Byte LF, Cleanup 2650000000]
                  (listener_init, cleanupTimedOutCommands 2600000000 two_pending) = Some (L', s')
        \<and> chans s' 0 = None
        \<and> SendCommand_select 3 0 ''km.lock_ml()'' False False s' = []
        \<and> map fst (SendCommand_select 3 0 ''km.lock_ml()'' False True s')
            = [Inl (MakcuError ErrTimeout ''command timed out: km.lock_ml()'')]"
    by (simp add: NewTimeoutError_def)
  from two_pending_ok keys c emp r show ?thesis by simp
qed

subsection \<open>Bounded reconnection\<close>

lemma attemptReconnect_fails:
  assumes "reconnectAttempts s < maxReconnectAttempts" and "\<not> reconnects env"
  shows "reconnectAttempts (attemptReconnect env s) = reconnectAttempts s + 1
       \<and> isConnected (attemptReconnect env s) = isConnected s
       \<and> autoReconnect (attemptReconnect env s) = autoReconnect s"
  using assms
  by (auto simp add: attemptReconnect_def reconnects_def changeBaudTo4M_def port_Write_def
      Let_def split: sum.splits option.splits)

lemma attemptReconnect_gives_up:
  assumes "reconnectAttempts s \<ge> maxReconnectAttempts"
  shows "attemptReconnect env s = s\<lparr>isConnected := False\<rparr>"
  using assms by (simp add: attemptReconnect_def)

lemma attemptReconnect_succeeds:
  assumes "reconnectAttempts s < maxReconnectAttempts" and "reconnects env"
  shows "reconnectAttempts (attemptReconnect env s) = 0
       \<and> isConnected (attemptReconnect env s) = isConnected s"
  using assms
  by (auto simp add: attemptReconnect_def reconnects_def changeBaudTo4M_def port_Write_def
      send_init_def Let_def split: sum.splits option.splits)

lemma listen_errors_disconnected: "\<not> isConnected s \<Longrightarrow> listen_errors envs s = s"
  by (cases envs) simp_all

lemma listen_errors_step:
  "isConnected s \<Longrightarrow> autoReconnect s \<Longrightarrow>
   listen_errors (env # envs) s = listen_errors envs (attemptReconnect env s)"
  by (simp add: listen_read_error_def)

text \<open>
  Claim C9, as the code has it. With auto-reconnect on, from a connected state with
  the attempt counter at 0, three read errors whose reconnection attempts all fail
  leave the counter at 3 and the state still connected. The next read error calls
  \<open>attemptReconnect\<close> a fourth time: that call opens no port and sets the state to
  disconnected, which ends the read loop, whatever errors would follow. In any state
  with the counter at 3 or more \<open>attemptReconnect\<close> opens no port and keeps the counter;
  an attempt that reconnects resets the counter to 0; and a successful \<open>Connect\<close> from
  a disconnected state sets the state to connected and the counter to 0.
\<close>

theorem reconnect_gives_up_on_fourth_call:
  assumes c: "isConnected s" and a: "autoReconnect s" and z: "reconnectAttempts s = 0"
    and f1: "\<not> reconnects e1" and f2: "\<not> reconnects e2" and f3: "\<not> reconnects e3"
  shows "listen_errors [e1, e2, e3] s = attemptReconnect e3 (attemptReconnect e2 (attemptReconnect e1 s))
       \<and> reconnectAttempts (listen_errors [e1, e2, e3] s) = 3
       \<and> isConnected (listen_errors [e1, e2, e3] s)
       \<and> (\<forall>e4 rest.
             listen_errors (e1 # e2 # e3 # e4 # rest) s
               = (listen_errors [e1, e2, e3] s)\<lparr>isConnected := False\<rparr>)
       \<and> (\<forall>e4 s'. reconnectAttempts s' \<ge> 3 \<longrightarrow>
             portOpens (attemptReconnect e4 s') = portOpens s'
             \<and> reconnectAttempts (attemptReconnect e4 s') = reconnectAttempts s'
             \<and> \<not> isConnected (attemptReconnect e4 s'))
       \<and> (\<forall>e s'. reconnectAttempts s' < 3 \<and> reconnects e \<longrightarrow>
             reconnectAttempts (attemptReconnect e s') = 0)
       \<and> (\<forall>e s' s''. \<not> isConnected s' \<and> Connect e s' = (None, s'') \<longrightarrow>
             isConnected s'' \<and> reconnectAttempts s'' = 0)"
proof -
  let ?s1 = "attemptReconnect e1 s"
  let ?s2 = "attemptReconnect e2 ?s1"
  let ?s3 = "attemptReconnect e3 ?s2"
  have r1: "reconnectAttempts ?s1 = 1" "isConnected ?s1" "autoReconnect ?s1"
    using attemptReconnect_fails [of s e1] c a z f1 by (simp_all add: maxReconnectAttempts_def)
  have r2: "reconnectAttempts ?s2 = 2" "isConnected ?s2" "autoReconnect ?s2"
    using attemptReconnect_fails [of ?s1 e2] r1 f2 by (simp_all add: maxReconnectAttempts_def)
  have r3: "reconnectAttempts ?s3 = 3" "isConnected ?s3" "autoReconnect ?s3"
    using attemptReconnect_fails [of ?s2 e3] r2 f3 by (simp_all add: maxReconnectAttempts_def)
  have run3: "listen_errors (e1 # e2 # e3 # envs) s = listen_errors envs ?s3" for envs
    using c a r1 r2 by (simp add: listen_errors_step del: listen_errors.simps)
  have p1: "listen_errors [e1, e2, e3] s = ?s3"
    using run3 [of "[]"] by (simp del: listen_errors.simps(2))
  have p4: "listen_errors (e1 # e2 # e3 # e4 # rest) s
               = (listen_errors [e1, e2, e3] s)\<lparr>isConnected := False\<rparr>" for e4 rest
  proof -
    have "listen_errors (e4 # rest) ?s3 = listen_errors rest (attemptReconnect e4 ?s3)"
      using r3 by (simp add: listen_errors_step del: listen_errors.simps)
    also have "attemptReconnect e4 ?s3 = ?s3\<lparr>isConnected := False\<rparr>"
      using r3 by (simp add: attemptReconnect_gives_up maxReconnectAttempts_def)
    also have "listen_errors rest (?s3\<lparr>isConnected := False\<rparr>) = ?s3\<lparr>isConnected := False\<rparr>"
      by (simp add: listen_errors_disconnected)
    finally show ?thesis by (simp add: run3 del: listen_errors.simps(2))
  qed
  have p5: "reconnectAttempts s' \<ge> 3 \<longrightarrow>
             portOpens (attemptReconnect e4 s') = portOpens s'
             \<and> reconnectAttempts (attemptReconnect e4 s') = reconnectAttempts s'
             \<and> \<not> isConnected (attemptReconnect e4 s')" for e4 s'
    by (simp add: attemptReconnect_gives_up maxReconnectAttempts_def)
  have p6: "reconnectAttempts s' < 3 \<and> reconnects e \<longrightarrow>
             reconnectAttempts (attemptReconnect e s') = 0" for e s'
    using attemptReconnect_succeeds [of s' e] by (simp add: maxReconnectAttempts_def)
  have p7: "\<not> isConnected s' \<and> Connect e s' = (None, s'') \<longrightarrow>
             isConnected s'' \<and> reconnectAttempts s'' = 0" for e s' s''
    by (auto simp add: Connect_def changeBaudTo4M_def port_Write_def send_init_def Let_def
        split: sum.splits option.splits if_splits prod.splits)
  from p1 r3 p4 p5 p6 p7 show ?thesis by (simp del: listen_errors.simps(2))
qed

text \<open>
  Claim C9 as stated fails: after three attempts of \<open>attemptReconnect\<close> that find no
  device, the connected flag is still set and \<open>IsConnected\<close> returns true.
\<close>

theorem three_failures_still_connected:
  "\<not> reconnects device_not_found
   \<and> isConnected (attemptReconnect device_not_found
        (attemptReconnect device_not_found
          (attemptReconnect device_not_found connected_transport)))
   \<and> IsConnected (attemptReconnect device_not_found
        (attemptReconnect device_not_found
          (attemptReconnect device_not_found connected_transport)))
   \<and> isConnected (listen_errors [device_not_found, device_not_found, device_not_found]
        connected_transport)"
  by (simp add: reconnects_def device_not_found_def attemptReconnect_def IsConnected_def
      listen_read_error_def maxReconnectAttempts_def connected_transport_def
      NewSerialTransport_def)

theorem reconnect_gives_up_on_fourth_call_witness:
  "isConnected connected_transport \<and> autoReconnect connected_transport
   \<and> reconnectAttempts connected_transport = 0 \<and> \<not> reconnects device_not_found
   \<and> reconnectAttempts
        (listen_errors [device_not_found, device_not_found, device_not_found] connected_transport) = 3
   \<and> \<not> isConnected
        (listen_errors [device_not_found, device_not_found, device_not_found, device_found, device_found]
           connected_transport)
   \<and> portOpens
        (listen_errors [device_not_found, device_not_found, device_not_found, device_found, device_found]
           connected_transport) = []"
proof -
  have c: "isConnected connected_transport" and a: "autoReconnect connected_transport"
    and z: "reconnectAttempts connected_transport = 0"
    by (simp_all add: connected_transport_def NewSerialTransport_def)
  have f: "\<not> reconnects device_not_found"
    by (simp add: reconnects_def device_not_found_def)
  note inst = reconnect_gives_up_on_fourth_call [OF c a z f f f]
  from inst have n: "reconnectAttempts
        (listen_errors [device_not_found, device_not_found, device_not_found] connected_transport) = 3"
    by blast
  from inst have g: "listen_errors
        [device_not_found, device_not_found, device_not_found, device_found, device_found]
        connected_transport
      = (listen_errors [device_not_found, device_not_found, device_not_found] connected_transport)
          \<lparr>isConnected := False\<rparr>"
    by blast
  have o: "portOpens
        (listen_errors [device_not_found, device_not_found, device_not_found] connected_transport) = []"
    by (simp add: device_not_found_def attemptReconnect_def listen_read_error_def
      maxReconnectAttempts_def connected_transport_def NewSerialTransport_def)
  from c a z f n show ?thesis by (simp add: g o del: listen_errors.simps)
qed

subsection \<open>The lock state cache\<close>

lemma ToUpper_left: "ToUpper (MouseButton_String 0) = ''LEFT''"
  by code_simp

lemma set_cache_bit_bit:
  "bit (lockStatesCache (set_cache_bit locked b m)) i
     = (if i = b then locked else bit (lockStatesCache m) i)"
  by (auto simp add: set_cache_bit_def bit_simps)

lemma IsLocked_queries_once:
  assumes "map_of lockTargets (ToUpper (MouseButton_String button)) = Some info"
    and "\<not> cacheValid m"
    and "send (queryCmd info) True (50 * millisecond) = Inr resp"
  shows "IsLocked button send m
           = (Inr (TrimSpace resp = ''1''),
              set_cache_bit (TrimSpace resp = ''1'') (bit' info) m,
              [(queryCmd info, True, 50 * millisecond)])"
  using assms by (simp add: IsLocked_def Let_def)

lemma IsLocked_cacheValid: "cacheValid (fst (snd (IsLocked button send m))) = cacheValid m"
  by (simp add: IsLocked_def set_cache_bit_def Let_def split: option.splits sum.splits)

text \<open>
  Claim C3 on the code. With the cache invalid and a device that answers \<open>1\<close>,
  \<open>IsLocked\<close> on the left button makes one call
  \<open>SendCommand("km.lock_ml()", true, 50ms)\<close>, returns true and sets bit 0 of the cache,
  but it leaves \<open>cacheValid\<close> false: a second \<open>IsLocked\<close> right after makes the same
  call again. \<open>setLock\<close> and \<open>GetAllLockStates\<close>, from the same invalid cache, do
  mark it valid.
\<close>

theorem IsLocked_leaves_cache_invalid:
  "IsLocked 0 always_locked (InvalidateCache NewMouse)
     = (Inr True, \<lparr>lockStatesCache = 1, cacheValid = False\<rparr>,
        [(''km.lock_ml()'', True, 50000000)])
   \<and> IsLocked 0 always_locked \<lparr>lockStatesCache = 1, cacheValid = False\<rparr>
     = (Inr True, \<lparr>lockStatesCache = 1, cacheValid = False\<rparr>,
        [(''km.lock_ml()'', True, 50000000)])
   \<and> cacheValid (fst (snd (setLock ''LEFT'' True always_locked (InvalidateCache NewMouse))))
   \<and> cacheValid (fst (snd (GetAllLockStates always_locked (InvalidateCache NewMouse))))"
  by (simp add: IsLocked_def ToUpper_left lockTargets_def always_locked_def InvalidateCache_def
      NewMouse_def set_cache_bit_def TrimSpace_def spaceRunes_def millisecond_def setLock_def
      GetAllLockStates_def split_beta)

subsection \<open>The table invariant is kept\<close>

lemma transport_ok_NewSerialTransport: "transport_ok (NewSerialTransport f i a ov)"
  by (simp add: transport_ok_def NewSerialTransport_def)

lemma transport_ok_subtable:
  assumes ok: "transport_ok s"
    and t: "pendingCommands s' = filter P (pendingCommands s)"
    and c: "commandCounter s' = commandCounter s" and n: "nextChan s' = nextChan s"
  shows "transport_ok s'"
  using ok by (auto simp add: transport_ok_def t c n distinct_map_filter)

lemma transport_ok_chans: "transport_ok (s\<lparr>chans := f\<rparr>) = transport_ok s"
  by (simp add: transport_ok_def)

lemma transport_ok_delete:
  "transport_ok s \<Longrightarrow> transport_ok (s\<lparr>pendingCommands := AList.delete k (pendingCommands s)\<rparr>)"
  by (rule transport_ok_subtable [where P = "\<lambda>(k', _). k \<noteq> k'"])
     (simp_all add: AList.delete_eq)

lemma transport_ok_processPendingCommands:
  assumes r: "processPendingCommands c s = Some s'" and ok: "transport_ok s"
  shows "transport_ok s'"
proof (cases "c = [] \<or> pendingCommands s = []")
  case True
  with r have "s' = s" by (auto simp add: processPendingCommands_def split: if_splits)
  with ok show ?thesis by simp
next
  case False
  let ?k = "find_oldest (pendingCommands s)"
  from r False obtain p where p: "map_of (pendingCommands s) ?k = Some p"
    by (auto simp add: processPendingCommands_def Let_def split: option.splits)
  show ?thesis
  proof (cases "c = Command p")
    case True
    with r False p have "s' = s" by (simp add: processPendingCommands_def Let_def)
    with ok show ?thesis by simp
  next
    case neq: False
    with r False p have "s' = s\<lparr>chans := chan_try_send (ResultCh p) c (chans s),
                                  pendingCommands := AList.delete ?k (pendingCommands s)\<rparr>"
      by (auto simp add: processPendingCommands_def Let_def)
    then have "transport_ok s'
        = transport_ok (s\<lparr>pendingCommands := AList.delete ?k (pendingCommands s)\<rparr>)"
      by (simp add: transport_ok_def)
    then show ?thesis
      using ok by (simp only: transport_ok_delete)
  qed
qed

lemma transport_ok_cleanup:
  assumes "transport_ok s"
  shows "transport_ok (cleanupTimedOutCommands now s)"
proof -
  from assms have d: "distinct (map fst (pendingCommands s))" by (simp add: transport_ok_def)
  show ?thesis
    by (rule transport_ok_subtable [OF assms cleanup_filter [OF d]])
       (simp_all add: cleanupTimedOutCommands_def)
qed

lemma fold_handleBit_counters:
  "commandCounter (fold (handleBit v ch) bs s) = commandCounter s
   \<and> nextChan (fold (handleBit v ch) bs s) = nextChan s"
  by (induction bs arbitrary: s) (simp_all add: handleBit_def Let_def)

lemma handleButtonData_counters [simp]:
  "commandCounter (handleButtonData v s) = commandCounter s"
  "nextChan (handleButtonData v s) = nextChan s"
  by (simp_all add: handleButtonData_def Let_def fold_handleBit_counters)

lemma transport_ok_handleButtonData:
  assumes "transport_ok s"
  shows "transport_ok (handleButtonData v s)"
  by (rule transport_ok_subtable [OF assms, where P = "\<lambda>e. True"]) simp_all

lemma transport_ok_loop_step:
  assumes r: "loop_step e (L, s) = Some (L', s')" and ok: "transport_ok s"
  shows "transport_ok s'"
proof (cases e)
  case (Byte c)
  with r obtain L1 where "listen_switch c L s = Some (L1, s')"
    by (auto simp add: listen_byte_def)
  from listen_switch_cases [OF this] ok show ?thesis
    by (auto simp add: transport_ok_handleButtonData transport_ok_processPendingCommands)
next
  case (Cleanup now)
  with r ok show ?thesis by (auto simp add: transport_ok_cleanup)
qed

lemma go_rem_range: "0 \<le> c \<Longrightarrow> 0 \<le> go_rem (c + 1) 10000 \<and> go_rem (c + 1) 10000 < 10000"
  by (simp add: go_rem_def)

lemma set_update_subset: "set (AList.update k v al) \<subseteq> insert (k, v) (set al)"
  by (induction al) auto

lemma distinct_chans_update:
  assumes "distinct (map (\<lambda>e. ResultCh (snd e)) al)"
    and "\<forall>e\<in>set al. ResultCh (snd e) \<noteq> ResultCh v"
  shows "distinct (map (\<lambda>e. ResultCh (snd e)) (AList.update k v al))"
  using assms
proof (induction al)
  case Nil
  then show ?case by simp
next
  case (Cons e al)
  show ?case
  proof (cases "fst e = k")
    case True
    then have "AList.update k v (e # al) = (k, v) # al" by (cases e) simp
    with Cons.prems show ?thesis by auto
  next
    case False
    then have u: "AList.update k v (e # al) = e # AList.update k v al" by (cases e) simp
    have n: "ResultCh (snd e) \<notin> (\<lambda>e. ResultCh (snd e)) ` set (AList.update k v al)"
      using Cons.prems set_update_subset [of k v al] by auto
    have "distinct (map (\<lambda>e. ResultCh (snd e)) (AList.update k v al))"
      using Cons.prems by (intro Cons.IH) simp_all
    with n show ?thesis unfolding u by simp
  qed
qed

lemma transport_ok_SendCommand_begin:
  assumes ok: "transport_ok s"
  shows "transport_ok (snd (SendCommand_begin command expectResponse timeout now werr s))"
proof (cases "\<not> isConnected s \<or> serialPort s = None \<or> \<not> expectResponse")
  case True
  have "transport_ok (port_Write w s)" for w
    using ok by (simp add: transport_ok_def port_Write_def)
  with True ok show ?thesis
    by (auto simp add: SendCommand_begin_def Let_def split: option.splits)
next
  case False
  let ?id = "go_rem (commandCounter s + 1) 10000"
  let ?p = "\<lparr>CommandID = ?id, Command = command, ResultCh = nextChan s, Timestamp = now\<rparr>"
  let ?s3 = "s\<lparr>commandCounter := ?id, chans := (chans s)(nextChan s := None),
               nextChan := Suc (nextChan s),
               pendingCommands := AList.update ?id ?p (pendingCommands s)\<rparr>"
  from ok have c: "0 \<le> commandCounter s" by (simp add: transport_ok_def)
  note rng = go_rem_range [OF c]
  have fresh: "\<forall>e\<in>set (pendingCommands s). ResultCh (snd e) \<noteq> ResultCh ?p"
    using ok by (auto simp add: transport_ok_def)
  have ok3: "transport_ok ?s3"
    unfolding transport_ok_def
  proof (intro conjI ballI)
    show "0 \<le> commandCounter ?s3" using rng by simp
    show "distinct (map fst (pendingCommands ?s3))"
      using ok by (simp add: transport_ok_def distinct_update)
    show "distinct (map (\<lambda>e. ResultCh (snd e)) (pendingCommands ?s3))"
      using ok fresh by (simp add: transport_ok_def distinct_chans_update)
  next
    fix e assume "e \<in> set (pendingCommands ?s3)"
    then have e: "e = (?id, ?p) \<or> e \<in> set (pendingCommands s)"
      using set_update_subset [of ?id ?p "pendingCommands s"] by auto
    from e rng ok show "0 \<le> fst e" by (auto simp add: transport_ok_def)
    from e rng ok show "fst e < 10000" by (auto simp add: transport_ok_def)
    from e ok show "CommandID (snd e) = fst e" by (auto simp add: transport_ok_def)
    from e ok show "ResultCh (snd e) < nextChan ?s3"
      by (auto simp add: transport_ok_def less_Suc_eq)
  qed
  have w: "transport_ok (port_Write x ?s3)" for x
    using ok3 by (simp add: transport_ok_def port_Write_def)
  have cases: "snd (SendCommand_begin command expectResponse timeout now werr s)
      = (case werr of
           None \<Rightarrow> port_Write (command @ ''#'' @ Sprintf_d ?id @ [CR, LF]) ?s3
         | Some err \<Rightarrow>
             (port_Write (command @ ''#'' @ Sprintf_d ?id @ [CR, LF]) ?s3)
               \<lparr>pendingCommands := AList.delete ?id
                  (pendingCommands (port_Write (command @ ''#'' @ Sprintf_d ?id @ [CR, LF]) ?s3))\<rparr>)"
  proof -
    from False obtain y where "isConnected s" and "serialPort s = Some y" and "expectResponse"
      by auto
    then show ?thesis
      by (simp add: SendCommand_begin_def generateCommandID_def Let_def port_Write_def
          split: option.splits)
  qed
  show ?thesis
    unfolding cases using w by (auto simp add: transport_ok_delete split: option.splits)
qed

lemma transport_ok_SendCommand_select:
  assumes "transport_ok s"
    and "(r, s') \<in> set (SendCommand_select cmdID ch command stopClosed timerFired s)"
  shows "transport_ok s'"
  using assms
  by (auto simp add: SendCommand_select_def transport_ok_chans transport_ok_delete
      split: option.splits if_splits)

lemma transport_ok_Disconnect: "transport_ok s \<Longrightarrow> transport_ok (Disconnect s)"
  by (simp add: transport_ok_def Disconnect_def)

lemma transport_ok_run_loop:
  "run_loop es (L, s) = Some (L', s') \<Longrightarrow> transport_ok s \<Longrightarrow> transport_ok s'"
proof (induction es arbitrary: L s)
  case Nil
  then show ?case by simp
next
  case (Cons e es)
  from Cons.prems(1) obtain L1 s1 where st: "loop_step e (L, s) = Some (L1, s1)"
    and rest: "run_loop es (L1, s1) = Some (L', s')"
    by (cases "loop_step e (L, s)") auto
  from transport_ok_loop_step [OF st Cons.prems(2)] have "transport_ok s1" .
  with rest show ?case by (rule Cons.IH)
qed

end
